theory Spec2Isabelle
  imports Complex_Main "HOL-Library.AList"
begin

section \<open>Numbers, sets and time of day as the TypeScript sources use them\<close>

text \<open>
  A JavaScript \<open>number\<close> is modelled as a \<^typ>\<open>real\<close> (coordinates, radii, delays) or an
  \<^typ>\<open>int\<close> (millisecond timestamps, attempt counters): the arithmetic of the sources is
  read over the exact numbers, without rounding, \<open>NaN\<close> or infinities.
  A \<open>Set<string>\<close> keeps its members in insertion order, so it is a list without
  repetitions; \<open>add\<close> and \<open>delete\<close> are the two functions below.
\<close>

definition set_add :: "'a \<Rightarrow> 'a list \<Rightarrow> 'a list" where
  "set_add x xs = (if x \<in> set xs then xs else xs @ [x])"

definition set_delete :: "'a \<Rightarrow> 'a list \<Rightarrow> 'a list" where
  "set_delete x xs = filter (\<lambda>y. y \<noteq> x) xs"

text \<open>
  \<open>Math.atan2(y, x)\<close>, the angle of the point \<open>(x, y)\<close>, and \<open>Math.pow(2, k)\<close> for an
  integer \<open>k\<close>.
\<close>

definition atan2 :: "real \<Rightarrow> real \<Rightarrow> real" where
  "atan2 y x =
     (if 0 < x then arctan (y / x)
      else if x < 0 \<and> 0 \<le> y then arctan (y / x) + pi
      else if x < 0 \<and> y < 0 then arctan (y / x) - pi
      else if 0 < y then pi / 2
      else if y < 0 then - (pi / 2)
      else 0)"


text \<open>
  A time of day written \<open>HH:MM\<close> is the pair of its two numbers; \<open>timeToMinutes\<close> splits
  the string at the colon and reads both parts as numbers.
\<close>

type_synonym HHMM = "nat \<times> nat"

definition timeToMinutes :: "HHMM \<Rightarrow> nat" where
  "timeToMinutes t = (case t of (hours, minutes) \<Rightarrow> hours * 60 + minutes)"

text \<open>
  \<open>new Date(timestamp)\<close> in local time: \<open>tz\<close> gives the offset of local time from UTC, in
  minutes, that is in force at a timestamp. 1 January 1970 was a Thursday (day 4).
\<close>

definition localMinutes :: "(int \<Rightarrow> int) \<Rightarrow> int \<Rightarrow> int" where
  "localMinutes tz timestamp = timestamp div 60000 + tz timestamp"

definition getDay :: "(int \<Rightarrow> int) \<Rightarrow> int \<Rightarrow> nat" where
  "getDay tz timestamp = nat ((localMinutes tz timestamp div 1440 + 4) mod 7)"

definition getHours :: "(int \<Rightarrow> int) \<Rightarrow> int \<Rightarrow> nat" where
  "getHours tz timestamp = nat ((localMinutes tz timestamp div 60) mod 24)"

definition getMinutes :: "(int \<Rightarrow> int) \<Rightarrow> int \<Rightarrow> nat" where
  "getMinutes tz timestamp = nat (localMinutes tz timestamp mod 60)"

section \<open>PolygonGeofence.ts: the data model\<close>

record Point =
  latitude :: real
  longitude :: real

text \<open>
  \<open>metadata\<close> is a \<open>Record<string, any>\<close>; the engine only reads and writes its
  \<open>wasInside\<close> entry, a boolean, so the values of the record are booleans here.
\<close>

record PolygonGeofenceRegion =
  region_id :: string
  region_name :: "string option"
  vertices :: "Point list"
  notifyOnEntry :: bool
  notifyOnExit :: bool
  metadata :: "(string \<rightharpoonup> bool) option"

record GeofenceHierarchy =
  hierarchy_id :: string
  parentId :: "string option"
  children :: "string list"
  inheritSettings :: bool

record TimeBasedRule =
  time_rule_id :: string
  startTime :: HHMM
  endTime :: HHMM
  daysOfWeek :: "nat list"
  timezone :: "string option"
  time_rule_isActive :: bool

datatype condition_kind = weather | traffic | activity | custom

datatype operator_kind = equals | greater_than | less_than | contains

record ConditionalRule =
  cond_rule_id :: string
  condition :: condition_kind
  operator :: operator_kind
  cond_value :: string
  cond_rule_isActive :: bool

datatype region_type = circle | polygon

text \<open>
  The bounding box of a region. \<open>Math.min()\<close> of no numbers is \<open>Infinity\<close> and
  \<open>Math.max()\<close> is \<open>-Infinity\<close>: the box of a region without vertices is that one box,
  \<open>EmptyBox\<close>.
\<close>

datatype BoundingBox =
  Box (minLat: real) (maxLat: real) (minLng: real) (maxLng: real)
  | EmptyBox

text \<open>
  A \<open>GeofenceHierarchy\<close> is an object that the region, the ledger and the caller share:
  the region holds a reference to it (an address of the heap of the manager's state).
\<close>

record AdvancedGeofenceRegion = PolygonGeofenceRegion +
  region_type :: region_type
  center :: "Point option"
  radius :: "real option"
  timeRules :: "TimeBasedRule list option"
  conditionalRules :: "ConditionalRule list option"
  hierarchy :: "nat option"
  boundingBox :: "BoundingBox option"

text \<open>
  The state of a \<open>PolygonGeofenceManager\<close>: the three maps of the class, and the heap of
  the hierarchy objects they refer to. A grid cell's key, the string \<open>"lat,lng"\<close>, is the
  pair of the two integers.
\<close>

record Manager =
  geofences :: "string \<rightharpoonup> AdvancedGeofenceRegion"
  spatialIndex :: "(int \<times> int) \<rightharpoonup> string list"
  hierarchies :: "string \<rightharpoonup> nat"
  heap :: "nat \<Rightarrow> GeofenceHierarchy"

record CheckResult =
  entered :: "AdvancedGeofenceRegion list"
  exited :: "AdvancedGeofenceRegion list"
  inside :: "AdvancedGeofenceRegion list"

section \<open>PolygonGeofence.ts: the operations\<close>

definition GRID_SIZE :: real where
  "GRID_SIZE = 1 / 100"

definition toRadians :: "real \<Rightarrow> real" where
  "toRadians degrees = degrees * (pi / 180)"

definition calculateDistance :: "real \<Rightarrow> real \<Rightarrow> real \<Rightarrow> real \<Rightarrow> real" where
  "calculateDistance lat1 lon1 lat2 lon2 =
     (let R = 6371000;
          dLat = toRadians (lat2 - lat1);
          dLon = toRadians (lon2 - lon1);
          a = sin (dLat / 2) * sin (dLat / 2) +
              cos (toRadians lat1) * cos (toRadians lat2) *
              sin (dLon / 2) * sin (dLon / 2);
          c = 2 * atan2 (sqrt a) (sqrt (1 - a))
      in R * c)"

text \<open>\<open>!geofence.radius\<close> holds for a missing radius and for the radius 0.\<close>

definition isPointInCircle :: "Point \<Rightarrow> AdvancedGeofenceRegion \<Rightarrow> bool" where
  "isPointInCircle point geofence =
     (case (center geofence, radius geofence) of
        (Some c, Some r) \<Rightarrow>
          if r = 0 then False
          else calculateDistance (latitude point) (longitude point) (latitude c) (longitude c) \<le> r
      | _ \<Rightarrow> False)"

text \<open>
  One edge of the ray casting loop: \<open>vi\<close> is \<open>vertices[i]\<close>, \<open>vj\<close> is \<open>vertices[j]\<close>.
\<close>

definition crosses :: "real \<Rightarrow> real \<Rightarrow> Point \<Rightarrow> Point \<Rightarrow> bool" where
  "crosses x y vi vj =
     (let xi = longitude vi; yi = latitude vi; xj = longitude vj; yj = latitude vj
      in ((yi > y) \<noteq> (yj > y)) \<and> x < (xj - xi) * (y - yi) / (yj - yi) + xi)"

text \<open>
  The loop \<open>for (i = 0, j = length - 1; i < length; j = i++)\<close>: \<open>vj\<close> is the vertex before
  the first of the vertices still to visit.
\<close>

fun ray_loop :: "real \<Rightarrow> real \<Rightarrow> Point \<Rightarrow> Point list \<Rightarrow> bool \<Rightarrow> bool" where
  "ray_loop x y vj [] ins = ins"
| "ray_loop x y vj (vi # vs) ins =
     ray_loop x y vi vs (if crosses x y vi vj then \<not> ins else ins)"

definition isPointInPolygon :: "Point \<Rightarrow> Point list \<Rightarrow> bool" where
  "isPointInPolygon point vs =
     (if length vs < 3 then False
      else ray_loop (longitude point) (latitude point) (last vs) vs False)"

definition isPointInside :: "Point \<Rightarrow> AdvancedGeofenceRegion \<Rightarrow> bool" where
  "isPointInside point geofence =
     (if region_type geofence = circle then isPointInCircle point geofence
      else isPointInPolygon point (vertices geofence))"

definition getGridCell :: "real \<Rightarrow> real \<Rightarrow> int \<times> int" where
  "getGridCell lat lng = (\<lfloor>lat / GRID_SIZE\<rfloor>, \<lfloor>lng / GRID_SIZE\<rfloor>)"

definition getGridCells :: "BoundingBox \<Rightarrow> (int \<times> int) list" where
  "getGridCells b =
     (case b of
        EmptyBox \<Rightarrow> []
      | Box mnLat mxLat mnLng mxLng \<Rightarrow>
          concat (map (\<lambda>lat. map (\<lambda>lng. (lat, lng))
                                  [\<lfloor>mnLng / GRID_SIZE\<rfloor> .. \<lfloor>mxLng / GRID_SIZE\<rfloor>])
                      [\<lfloor>mnLat / GRID_SIZE\<rfloor> .. \<lfloor>mxLat / GRID_SIZE\<rfloor>]))"

definition getAdjacentCells :: "int \<times> int \<Rightarrow> (int \<times> int) list" where
  "getAdjacentCells cellKey =
     (case cellKey of (lat, lng) \<Rightarrow>
        concat (map (\<lambda>dLat. concat (map (\<lambda>dLng.
                  if dLat = 0 \<and> dLng = 0 then [] else [(lat + dLat, lng + dLng)])
                  [-1, 0, 1])) [-1, 0, 1]))"

text \<open>The polygon branch of \<open>calculateBoundingBox\<close>: minimum and maximum of the vertices.\<close>

definition verticesBox :: "Point list \<Rightarrow> BoundingBox" where
  "verticesBox vs =
     (if vs = [] then EmptyBox
      else Box (Min (set (map latitude vs))) (Max (set (map latitude vs)))
               (Min (set (map longitude vs))) (Max (set (map longitude vs))))"

text \<open>
  The circle branch is taken when \<open>type === 'circle' && center && radius\<close>: a radius
  of 0 is falsy and leads to the polygon branch.
\<close>

definition calculateBoundingBox :: "AdvancedGeofenceRegion \<Rightarrow> BoundingBox" where
  "calculateBoundingBox geofence =
     (case (center geofence, radius geofence) of
        (Some c, Some r) \<Rightarrow>
          if region_type geofence = circle \<and> r \<noteq> 0 then
            (let latOffset = r / 111000;
                 lngOffset = latOffset / cos (latitude c * pi / 180)
             in Box (latitude c - latOffset) (latitude c + latOffset)
                    (longitude c - lngOffset) (longitude c + lngOffset))
          else verticesBox (vertices geofence)
      | _ \<Rightarrow> verticesBox (vertices geofence))"

definition addToSpatialIndex :: "Manager \<Rightarrow> AdvancedGeofenceRegion \<Rightarrow> Manager" where
  "addToSpatialIndex s geofence =
     (case boundingBox geofence of
        None \<Rightarrow> s
      | Some b \<Rightarrow>
          s\<lparr>spatialIndex :=
              fold (\<lambda>cell idx.
                      idx(cell \<mapsto> set_add (region_id geofence)
                                     (case idx cell of None \<Rightarrow> [] | Some ids \<Rightarrow> ids)))
                   (getGridCells b) (spatialIndex s)\<rparr>)"

definition removeFromSpatialIndex :: "Manager \<Rightarrow> AdvancedGeofenceRegion \<Rightarrow> Manager" where
  "removeFromSpatialIndex s geofence =
     (case boundingBox geofence of
        None \<Rightarrow> s
      | Some b \<Rightarrow>
          s\<lparr>spatialIndex :=
              fold (\<lambda>cell idx.
                      case idx cell of
                        None \<Rightarrow> idx
                      | Some ids \<Rightarrow>
                          if set_delete (region_id geofence) ids = [] then idx(cell := None)
                          else idx(cell \<mapsto> set_delete (region_id geofence) ids))
                   (getGridCells b) (spatialIndex s)\<rparr>)"

text \<open>
  \<open>getCandidateGeofences\<close>. When the point's own cell has a bucket, \<open>candidateIds\<close> is
  that very \<open>Set\<close> of the index, and \<open>candidateIds.add\<close> writes the neighbours' ids into
  it: the function returns the manager's state as well. A region object of the manager
  is referred to by the key it is stored under, so the candidates are keys.
\<close>

definition getCandidateGeofences :: "Manager \<Rightarrow> Point \<Rightarrow> Manager \<times> string list" where
  "getCandidateGeofences s point =
     (let cellKey = getGridCell (latitude point) (longitude point);
          candidateIds =
            fold (\<lambda>cell ids.
                    case spatialIndex s cell of
                      None \<Rightarrow> ids
                    | Some cellIds \<Rightarrow> fold set_add cellIds ids)
                 (getAdjacentCells cellKey)
                 (case spatialIndex s cellKey of None \<Rightarrow> [] | Some ids \<Rightarrow> ids);
          s' = (case spatialIndex s cellKey of
                  None \<Rightarrow> s
                | Some ids \<Rightarrow> s\<lparr>spatialIndex := (spatialIndex s)(cellKey \<mapsto> candidateIds)\<rparr>)
      in (s', filter (\<lambda>key. geofences s key \<noteq> None) candidateIds))"

definition isTimeInRange :: "HHMM \<Rightarrow> HHMM \<Rightarrow> HHMM \<Rightarrow> bool" where
  "isTimeInRange time start end =
     (let timeMinutes = timeToMinutes time;
          startMinutes = timeToMinutes start;
          endMinutes = timeToMinutes end
      in if startMinutes \<le> endMinutes
         then timeMinutes \<ge> startMinutes \<and> timeMinutes \<le> endMinutes
         else timeMinutes \<ge> startMinutes \<or> timeMinutes \<le> endMinutes)"

text \<open>The loop over the rules returns true at the first rule that matches.\<close>

fun anyRuleMatches :: "nat \<Rightarrow> HHMM \<Rightarrow> TimeBasedRule list \<Rightarrow> bool" where
  "anyRuleMatches dayOfWeek timeString [] = False"
| "anyRuleMatches dayOfWeek timeString (rule # rules) =
     (if \<not> time_rule_isActive rule then anyRuleMatches dayOfWeek timeString rules
      else if \<not> List.member (daysOfWeek rule) dayOfWeek
        then anyRuleMatches dayOfWeek timeString rules
      else if isTimeInRange timeString (startTime rule) (endTime rule) then True
      else anyRuleMatches dayOfWeek timeString rules)"

definition isTimeRuleActive :: "(int \<Rightarrow> int) \<Rightarrow> AdvancedGeofenceRegion \<Rightarrow> int \<Rightarrow> bool" where
  "isTimeRuleActive tz geofence timestamp =
     (case timeRules geofence of
        None \<Rightarrow> True
      | Some rules \<Rightarrow>
          if rules = [] then True
          else anyRuleMatches (getDay tz timestamp)
                 (getHours tz timestamp, getMinutes tz timestamp) rules)"

definition areConditionalRulesActive :: "AdvancedGeofenceRegion \<Rightarrow> bool" where
  "areConditionalRulesActive geofence =
     (case conditionalRules geofence of
        None \<Rightarrow> True
      | Some rules \<Rightarrow> if rules = [] then True else list_all cond_rule_isActive rules)"

text \<open>\<open>geofence.metadata?.wasInside || false\<close>\<close>

definition wasInside :: "AdvancedGeofenceRegion \<Rightarrow> bool" where
  "wasInside geofence =
     (case metadata geofence of
        None \<Rightarrow> False
      | Some m \<Rightarrow> (case m ''wasInside'' of None \<Rightarrow> False | Some b \<Rightarrow> b))"

text \<open>\<open>geofence.metadata = { ...geofence.metadata, wasInside: isInside }\<close>\<close>

definition setWasInside :: "bool \<Rightarrow> AdvancedGeofenceRegion \<Rightarrow> AdvancedGeofenceRegion" where
  "setWasInside isInside geofence =
     geofence\<lparr>metadata :=
       Some ((case metadata geofence of None \<Rightarrow> Map.empty | Some m \<Rightarrow> m)
               (''wasInside'' \<mapsto> isInside))\<rparr>"

text \<open>
  The body of the loop of \<open>checkLocation\<close> for one candidate. The three result arrays
  hold references to the region objects: what a caller reads there is the object after
  the pass, so the model appends the region as the body leaves it.
\<close>

definition checkOne ::
  "(int \<Rightarrow> int) \<Rightarrow> Point \<Rightarrow> int \<Rightarrow> string \<Rightarrow> Manager \<times> CheckResult \<Rightarrow> Manager \<times> CheckResult"
where
  "checkOne tz point timestamp key sr =
     (case sr of (s, result) \<Rightarrow>
        (case geofences s key of
           None \<Rightarrow> (s, result)
         | Some geofence \<Rightarrow>
             if \<not> isTimeRuleActive tz geofence timestamp then (s, result)
             else if \<not> areConditionalRulesActive geofence then (s, result)
             else
               (let isInside = isPointInside point geofence;
                    was = wasInside geofence;
                    updated = setWasInside isInside geofence;
                    result' =
                      (if isInside then
                         (if \<not> was \<and> notifyOnEntry geofence
                          then result\<lparr>entered := entered result @ [updated],
                                      inside := inside result @ [updated]\<rparr>
                          else result\<lparr>inside := inside result @ [updated]\<rparr>)
                       else if was \<and> notifyOnExit geofence
                         then result\<lparr>exited := exited result @ [updated]\<rparr>
                       else result)
                in (s\<lparr>geofences := (geofences s)(key \<mapsto> updated)\<rparr>, result'))))"

definition checkLocation ::
  "(int \<Rightarrow> int) \<Rightarrow> Manager \<Rightarrow> Point \<Rightarrow> int \<Rightarrow> Manager \<times> CheckResult"
where
  "checkLocation tz s point timestamp =
     (case getCandidateGeofences s point of
        (s', candidateGeofences) \<Rightarrow>
          fold (checkOne tz point timestamp) candidateGeofences
               (s', \<lparr>entered = [], exited = [], inside = []\<rparr>))"

text \<open>\<open>if (hierarchy.parentId)\<close>: a missing parent id and the empty string are falsy.\<close>

definition truthyParent :: "GeofenceHierarchy \<Rightarrow> string option" where
  "truthyParent h = (case parentId h of None \<Rightarrow> None | Some p \<Rightarrow> if p = [] then None else Some p)"

definition updateHierarchyReferences :: "Manager \<Rightarrow> nat \<Rightarrow> Manager" where
  "updateHierarchyReferences s h =
     (let s1 = s\<lparr>hierarchies := (hierarchies s)(hierarchy_id (heap s h) \<mapsto> h)\<rparr>
      in case truthyParent (heap s1 h) of
           None \<Rightarrow> s1
         | Some pid \<Rightarrow>
             (case hierarchies s1 pid of
                None \<Rightarrow> s1
              | Some parent \<Rightarrow>
                  if List.member (children (heap s1 parent)) (hierarchy_id (heap s1 h)) then s1
                  else s1\<lparr>heap := (heap s1)(parent := (heap s1 parent)
                         \<lparr>children := children (heap s1 parent) @ [hierarchy_id (heap s1 h)]\<rparr>)\<rparr>))"

definition removeFromHierarchy :: "Manager \<Rightarrow> string \<Rightarrow> Manager" where
  "removeFromHierarchy s regionId =
     (case hierarchies s regionId of
        None \<Rightarrow> s
      | Some h \<Rightarrow>
          (let s1 = (case truthyParent (heap s h) of
                       None \<Rightarrow> s
                     | Some pid \<Rightarrow>
                         (case hierarchies s pid of
                            None \<Rightarrow> s
                          | Some parent \<Rightarrow>
                              s\<lparr>heap := (heap s)(parent := (heap s parent)
                                 \<lparr>children := filter (\<lambda>i. i \<noteq> regionId)
                                                      (children (heap s parent))\<rparr>)\<rparr>));
               s2 = fold (\<lambda>childId st.
                            case hierarchies st childId of
                              None \<Rightarrow> st
                            | Some child \<Rightarrow>
                                st\<lparr>heap := (heap st)(child := (heap st child)\<lparr>parentId := None\<rparr>)\<rparr>)
                         (children (heap s1 h)) s1
           in s2\<lparr>hierarchies := (hierarchies s2)(regionId := None)\<rparr>))"

text \<open>
  \<open>addGeofence\<close> has no \<open>throw\<close> and no early return: it returns the region's id, and the
  model returns the new state with it.
\<close>

definition addGeofence :: "Manager \<Rightarrow> AdvancedGeofenceRegion \<Rightarrow> Manager \<times> string" where
  "addGeofence s region =
     (let geofence = region\<lparr>boundingBox := Some (calculateBoundingBox region)\<rparr>;
          s1 = s\<lparr>geofences := (geofences s)(region_id region \<mapsto> geofence)\<rparr>;
          s2 = addToSpatialIndex s1 geofence;
          s3 = (case hierarchy geofence of
                  None \<Rightarrow> s2
                | Some h \<Rightarrow>
                    updateHierarchyReferences
                      (s2\<lparr>hierarchies := (hierarchies s2)(region_id region \<mapsto> h)\<rparr>) h)
      in (s3, region_id region))"

definition removeGeofence :: "Manager \<Rightarrow> string \<Rightarrow> Manager \<times> bool" where
  "removeGeofence s regionId =
     (case geofences s regionId of
        None \<Rightarrow> (s, False)
      | Some geofence \<Rightarrow>
          (let s1 = removeFromSpatialIndex s geofence;
               s2 = s1\<lparr>geofences := (geofences s1)(regionId := None)\<rparr>;
               s3 = (if hierarchy geofence \<noteq> None then removeFromHierarchy s2 regionId else s2)
           in (s3, True)))"

text \<open>A new \<open>PolygonGeofenceManager\<close>: three empty maps.\<close>

definition newManager :: "(nat \<Rightarrow> GeofenceHierarchy) \<Rightarrow> Manager" where
  "newManager hp = \<lparr>geofences = Map.empty, spatialIndex = Map.empty,
                     hierarchies = Map.empty, heap = hp\<rparr>"

section \<open>OfflineManager.ts\<close>

record GeofenceRegion =
  geofence_id :: string
  geofence_latitude :: real
  geofence_longitude :: real
  geofence_radius :: real
  geofence_notifyOnEntry :: bool
  geofence_notifyOnExit :: bool

record OfflineGeofence = GeofenceRegion +
  isActive :: bool
  lastEvaluated :: int
  geofence_metadata :: "(string \<rightharpoonup> bool) option"

record LocationPoint =
  location_latitude :: real
  location_longitude :: real
  accuracy :: "real option"
  location_timestamp :: int

datatype event_type = enter | exit

record OfflineEvent =
  event_id :: string
  event_type :: event_type
  regionId :: string
  location :: LocationPoint
  timestamp :: int
  synced :: bool

datatype connection_type = wifi | cellular | none

record NetworkStatus =
  isConnected :: bool
  connectionType :: connection_type
  isExpensive :: bool
  lastConnected :: int

record SyncResult =
  success :: bool
  synced_count :: nat
  failed_count :: nat

text \<open>
  The state of an \<open>OfflineManager\<close>. The \<open>Map\<close> of geofences is listed in insertion
  order (\<open>getGeofences\<close> reads it in that order). A sync callback returns a promise:
  it is the predicate that says whether the promise is fulfilled (\<open>True\<close>) or rejected.
  \<open>retryTimeouts\<close> holds the timers that are set, each one by its delay.
  The events are objects shared between \<open>pendingEvents\<close> and the batches made of them: an
  event is referred to by its position in \<open>pendingEvents\<close>.
\<close>

record OfflineManager =
  offline_geofences :: "(string \<times> OfflineGeofence) list"
  pendingEvents :: "OfflineEvent list"
  networkStatus :: NetworkStatus
  syncCallbacks :: "(OfflineEvent list \<Rightarrow> bool) list"
  syncInProgress :: bool
  retryTimeouts :: "real list"

text \<open>\<open>addGeofence\<close> of the offline manager; \<open>now\<close> is \<open>Date.now()\<close>.\<close>

definition offline_addGeofence :: "int \<Rightarrow> OfflineManager \<Rightarrow> GeofenceRegion \<Rightarrow> OfflineManager" where
  "offline_addGeofence now s geofence =
     (let offlineGeofence =
            GeofenceRegion.extend geofence
              (OfflineGeofence.fields True now None)
      in s\<lparr>offline_geofences :=
             AList.update (geofence_id geofence) offlineGeofence (offline_geofences s)\<rparr>)"

definition offline_wasInside :: "OfflineGeofence \<Rightarrow> bool" where
  "offline_wasInside geofence =
     (case geofence_metadata geofence of
        None \<Rightarrow> False
      | Some m \<Rightarrow> (case m ''wasInside'' of None \<Rightarrow> False | Some b \<Rightarrow> b))"

definition offline_setWasInside :: "bool \<Rightarrow> OfflineGeofence \<Rightarrow> OfflineGeofence" where
  "offline_setWasInside b geofence =
     geofence\<lparr>geofence_metadata :=
       Some ((case geofence_metadata geofence of None \<Rightarrow> Map.empty | Some m \<Rightarrow> m)
               (''wasInside'' \<mapsto> b))\<rparr>"

definition scheduleSyncAttempt :: "OfflineManager \<Rightarrow> real \<Rightarrow> OfflineManager" where
  "scheduleSyncAttempt s delay =
     (if syncInProgress s then s else s\<lparr>retryTimeouts := retryTimeouts s @ [delay]\<rparr>)"

text \<open>
  The loop of \<open>evaluateLocation\<close> over the active geofences, in the order of the map.
  \<open>newId k\<close> is the id that \<open>generateEventId\<close> returns for the event made when \<open>k\<close> events
  have been made in this call. The result is the geofences after the loop and the
  events made.
\<close>

fun evaluateLoop ::
  "LocationPoint \<Rightarrow> (nat \<Rightarrow> string) \<Rightarrow> (string \<times> OfflineGeofence) list \<Rightarrow> OfflineEvent list
   \<Rightarrow> (string \<times> OfflineGeofence) list \<times> OfflineEvent list"
where
  "evaluateLoop loc newId [] events = ([], events)"
| "evaluateLoop loc newId ((key, geofence) # rest) events =
     (if \<not> isActive geofence then
        (case evaluateLoop loc newId rest events of
           (rest', events') \<Rightarrow> ((key, geofence) # rest', events'))
      else
        (let distance = calculateDistance (location_latitude loc) (location_longitude loc)
                          (geofence_latitude geofence) (geofence_longitude geofence);
             isInside = (distance \<le> geofence_radius geofence);
             was = offline_wasInside geofence;
             evaluated = geofence\<lparr>lastEvaluated := location_timestamp loc\<rparr>
         in if isInside \<and> \<not> was \<and> geofence_notifyOnEntry geofence then
              (case evaluateLoop loc newId rest
                      (events @ [\<lparr>event_id = newId (length events), event_type = enter,
                                  regionId = geofence_id geofence, location = loc,
                                  timestamp = location_timestamp loc, synced = False\<rparr>]) of
                 (rest', events') \<Rightarrow>
                   ((key, offline_setWasInside True evaluated) # rest', events'))
            else if \<not> isInside \<and> was \<and> geofence_notifyOnExit geofence then
              (case evaluateLoop loc newId rest
                      (events @ [\<lparr>event_id = newId (length events), event_type = exit,
                                  regionId = geofence_id geofence, location = loc,
                                  timestamp = location_timestamp loc, synced = False\<rparr>]) of
                 (rest', events') \<Rightarrow>
                   ((key, offline_setWasInside False evaluated) # rest', events'))
            else
              (case evaluateLoop loc newId rest events of
                 (rest', events') \<Rightarrow> ((key, evaluated) # rest', events'))))"

definition evaluateLocation ::
  "(nat \<Rightarrow> string) \<Rightarrow> OfflineManager \<Rightarrow> LocationPoint \<Rightarrow> OfflineManager \<times> OfflineEvent list"
where
  "evaluateLocation newId s loc =
     (case evaluateLoop loc newId (offline_geofences s) [] of
        (geofences', events) \<Rightarrow>
          (let s1 = s\<lparr>offline_geofences := geofences',
                      pendingEvents := pendingEvents s @ events\<rparr>;
               s2 = (if length events > 0 \<and> isConnected (networkStatus s1)
                     then scheduleSyncAttempt s1 1000 else s1)
           in (s2, events)))"

text \<open>\<open>events.slice(i, j)\<close> for \<open>0 \<le> i \<le> j\<close>.\<close>

definition slice :: "'a list \<Rightarrow> nat \<Rightarrow> nat \<Rightarrow> 'a list" where
  "slice xs i j = take (j - i) (drop i xs)"

text \<open>A list cut into pieces of \<open>n\<close> elements, the last one of what is left.\<close>

function chunk :: "nat \<Rightarrow> 'a list \<Rightarrow> 'a list list" where
  "chunk n xs = (if xs = [] \<or> n = 0 then [] else take n xs # chunk n (drop n xs))"
  by pat_completeness auto
termination
  by (relation "measure (\<lambda>(n, xs). length xs)") auto

declare chunk.simps [simp del]

text \<open>
  The loop of \<open>batchEvents\<close>, \<open>for (i = 0; i < events.length; i += batchSize)\<close>. With a
  batch size of 0 it does not end: the result is an option, \<open>None\<close> when the loop
  does not return.
\<close>

partial_function (option) batchLoop ::
  "'a list \<Rightarrow> nat \<Rightarrow> nat \<Rightarrow> 'a list list \<Rightarrow> 'a list list option"
where
  "batchLoop events batchSize i batches =
     (if i < length events
      then batchLoop events batchSize (i + batchSize) (batches @ [slice events i (i + batchSize)])
      else Some batches)"

definition batchEvents :: "'a list \<Rightarrow> nat \<Rightarrow> 'a list list option" where
  "batchEvents events batchSize = batchLoop events batchSize 0 []"

text \<open>\<open>batch.forEach(event => { event.synced = true; syncedCount++ })\<close>\<close>

definition markSynced :: "OfflineEvent list \<Rightarrow> nat list \<Rightarrow> OfflineEvent list" where
  "markSynced pe batch = fold (\<lambda>i store. store[i := (store ! i)\<lparr>synced := True\<rparr>]) batch pe"

text \<open>
  \<open>Promise.all(this.syncCallbacks.map(callback => callback(batch)))\<close> is fulfilled when
  the promises of all callbacks are, and rejected when one of them is rejected.
\<close>

definition promiseAll :: "(OfflineEvent list \<Rightarrow> bool) list \<Rightarrow> OfflineEvent list \<Rightarrow> bool" where
  "promiseAll callbacks batch = list_all (\<lambda>callback. callback batch) callbacks"

text \<open>
  The loop over the batches: a batch whose \<open>Promise.all\<close> is fulfilled is marked, one
  whose \<open>Promise.all\<close> is rejected is counted as failed in the \<open>catch\<close> block.
\<close>

fun syncBatches ::
  "(OfflineEvent list \<Rightarrow> bool) list \<Rightarrow> nat list list \<Rightarrow> OfflineEvent list \<times> nat \<times> nat
   \<Rightarrow> OfflineEvent list \<times> nat \<times> nat"
where
  "syncBatches callbacks [] acc = acc"
| "syncBatches callbacks (batch # batches) (pe, syncedCount, failedCount) =
     (if promiseAll callbacks (map (\<lambda>i. pe ! i) batch)
      then syncBatches callbacks batches
             (markSynced pe batch, syncedCount + length batch, failedCount)
      else syncBatches callbacks batches (pe, syncedCount, failedCount + length batch))"

text \<open>Whether the callbacks all succeed on the batch of the events that \<open>batch\<close> refers to.\<close>

definition batchOk ::
  "(OfflineEvent list \<Rightarrow> bool) list \<Rightarrow> OfflineEvent list \<Rightarrow> nat list \<Rightarrow> bool"
where
  "batchOk callbacks pe batch = promiseAll callbacks (map (\<lambda>i. pe ! i) batch)"

definition unsyncedRefs :: "OfflineEvent list \<Rightarrow> nat list" where
  "unsyncedRefs pe = filter (\<lambda>i. \<not> synced (pe ! i)) [0..<length pe]"

text \<open>
  \<open>syncPendingEvents\<close>, run from its call to the end of its promise. The \<open>finally\<close> block
  resets \<open>syncInProgress\<close> on every path behind the guard.
\<close>

definition syncPendingEvents :: "OfflineManager \<Rightarrow> (OfflineManager \<times> SyncResult) option" where
  "syncPendingEvents s =
     (if syncInProgress s \<or> \<not> isConnected (networkStatus s)
      then Some (s, \<lparr>success = False, synced_count = 0, failed_count = 0\<rparr>)
      else
        (let unsyncedEvents = unsyncedRefs (pendingEvents s)
         in if length unsyncedEvents = 0
            then Some (s\<lparr>syncInProgress := False\<rparr>,
                       \<lparr>success = True, synced_count = 0, failed_count = 0\<rparr>)
            else
              (case batchEvents unsyncedEvents 50 of
                 None \<Rightarrow> None
               | Some batches \<Rightarrow>
                   (case syncBatches (syncCallbacks s) batches (pendingEvents s, 0, 0) of
                      (pe, syncedCount, failedCount) \<Rightarrow>
                        Some (s\<lparr>pendingEvents := filter (\<lambda>e. \<not> synced e) pe,
                                syncInProgress := False\<rparr>,
                              \<lparr>success = (syncedCount > 0), synced_count = syncedCount,
                               failed_count = failedCount\<rparr>)))))"







text \<open>
  \<open>compressEvents\<close> and \<open>decompressEvents\<close>. \<open>JSON.stringify\<close> and \<open>JSON.parse\<close> belong to
  the platform: they are the parameters \<open>stringify\<close> and \<open>parse\<close>, the first from the
  list of compressed records to a string, the second back.
  \<open>Math.round(x)\<close> is the integer nearest to \<open>x\<close>, the greater one at a tie.
\<close>

record CompressedEvent =
  compressed_i :: string
  compressed_t :: int
  compressed_r :: string
  compressed_lat :: real
  compressed_lng :: real
  compressed_ts :: int

definition Math_round :: "real \<Rightarrow> real" where
  "Math_round x = of_int \<lfloor>x + 1 / 2\<rfloor>"

text \<open>\<open>const compressed = events.map(event => ({ i: ..., ts: event.timestamp }))\<close>\<close>

definition compressedItems :: "OfflineEvent list \<Rightarrow> CompressedEvent list" where
  "compressedItems events =
     map (\<lambda>event.
       \<lparr>compressed_i = event_id event,
        compressed_t = (if event_type event = enter then 1 else 0),
        compressed_r = regionId event,
        compressed_lat = Math_round (location_latitude (location event) * 1000000) / 1000000,
        compressed_lng = Math_round (location_longitude (location event) * 1000000) / 1000000,
        compressed_ts = timestamp event\<rparr>) events"

definition compressEvents ::
  "(CompressedEvent list \<Rightarrow> string) \<Rightarrow> OfflineEvent list \<Rightarrow> string"
where
  "compressEvents stringify events = stringify (compressedItems events)"

definition decompressEvents ::
  "(string \<Rightarrow> CompressedEvent list) \<Rightarrow> string \<Rightarrow> OfflineEvent list"
where
  "decompressEvents parse compressed =
     map (\<lambda>item.
       \<lparr>event_id = compressed_i item,
        event_type = (if compressed_t item = 1 then enter else exit),
        regionId = compressed_r item,
        location = \<lparr>location_latitude = compressed_lat item,
                    location_longitude = compressed_lng item,
                    accuracy = None,
                    location_timestamp = compressed_ts item\<rparr>,
        timestamp = compressed_ts item,
        synced = False\<rparr>) (parse compressed)"

section \<open>WebhookManager.ts: the delivery queue\<close>














section \<open>Concrete regions, states and inputs\<close>

text \<open>
  A region that is open from 09:00 to 17:00 on every day, at 17:00 and at 17:01 of
  1 January 1970 (UTC).
\<close>

definition officeRule :: TimeBasedRule where
  "officeRule = \<lparr>time_rule_id = ''office'', startTime = (9, 0), endTime = (17, 0),
     daysOfWeek = [0, 1, 2, 3, 4, 5, 6], timezone = None, time_rule_isActive = True\<rparr>"

definition officeRegion :: AdvancedGeofenceRegion where
  "officeRegion = \<lparr>region_id = ''office'', region_name = None,
     vertices = [\<lparr>latitude = 0, longitude = 0\<rparr>, \<lparr>latitude = 0, longitude = 10\<rparr>,
                 \<lparr>latitude = 10, longitude = 10\<rparr>, \<lparr>latitude = 10, longitude = 0\<rparr>],
     notifyOnEntry = True, notifyOnExit = True, metadata = None,
     region_type = polygon, center = None, radius = None,
     timeRules = Some [officeRule], conditionalRules = None,
     hierarchy = None, boundingBox = None\<rparr>"

text \<open>
  The parent of a region in the hierarchy ledger, as \<open>updateHierarchyReferences\<close> and
  \<open>removeFromHierarchy\<close> read it.
\<close>

definition parentOf :: "Manager \<Rightarrow> string \<Rightarrow> string option" where
  "parentOf s c = (case hierarchies s c of None \<Rightarrow> None | Some h \<Rightarrow> truthyParent (heap s h))"

text \<open>\<open>{ ...region, boundingBox: this.calculateBoundingBox(region) }\<close>\<close>

definition withBox :: "AdvancedGeofenceRegion \<Rightarrow> AdvancedGeofenceRegion" where
  "withBox r = r\<lparr>boundingBox := Some (calculateBoundingBox r)\<rparr>"

text \<open>
  Three hierarchy objects: at address 0 the hierarchy of \<open>a\<close> with parent \<open>b\<close>, at
  address 1 the hierarchy of \<open>b\<close> with parent \<open>a\<close>, elsewhere a hierarchy of \<open>a\<close> without
  parent. Two small triangles, one inside the grid cell (0, 0) and one inside (2, 2).
\<close>

definition exampleHeap :: "nat \<Rightarrow> GeofenceHierarchy" where
  "exampleHeap a =
     (if a = 0 then \<lparr>hierarchy_id = ''a'', parentId = Some ''b'', children = [],
                      inheritSettings = False\<rparr>
      else if a = 1 then \<lparr>hierarchy_id = ''b'', parentId = Some ''a'', children = [],
                           inheritSettings = False\<rparr>
      else \<lparr>hierarchy_id = ''a'', parentId = None, children = [], inheritSettings = False\<rparr>)"

definition triangleA :: "Point list" where
  "triangleA = [\<lparr>latitude = 1 / 1000, longitude = 1 / 1000\<rparr>,
                \<lparr>latitude = 1 / 1000, longitude = 5 / 1000\<rparr>,
                \<lparr>latitude = 5 / 1000, longitude = 3 / 1000\<rparr>]"

definition triangleB :: "Point list" where
  "triangleB = [\<lparr>latitude = 21 / 1000, longitude = 21 / 1000\<rparr>,
                \<lparr>latitude = 21 / 1000, longitude = 25 / 1000\<rparr>,
                \<lparr>latitude = 25 / 1000, longitude = 23 / 1000\<rparr>]"

definition plainRegion :: "string \<Rightarrow> Point list \<Rightarrow> nat option \<Rightarrow> AdvancedGeofenceRegion" where
  "plainRegion i vs h = \<lparr>region_id = i, region_name = None, vertices = vs,
     notifyOnEntry = True, notifyOnExit = True, metadata = None,
     region_type = polygon, center = None, radius = None,
     timeRules = None, conditionalRules = None, hierarchy = h, boundingBox = None\<rparr>"

definition stateA :: Manager where
  "stateA = fst (addGeofence (newManager exampleHeap) (plainRegion ''a'' triangleA (Some 0)))"

definition stateAB :: Manager where
  "stateAB = fst (addGeofence stateA (plainRegion ''b'' triangleB (Some 1)))"

definition duplicateA :: AdvancedGeofenceRegion where
  "duplicateA = plainRegion ''a'' triangleB (Some 2)"

text \<open>An exit event that was synced and carries an accuracy.\<close>

definition sampleEvent :: OfflineEvent where
  "sampleEvent = \<lparr>event_id = ''e1'', event_type = exit, regionId = ''home'',
     location = \<lparr>location_latitude = 3 / 2, location_longitude = - (9 / 4),
                 accuracy = Some 5, location_timestamp = 7\<rparr>,
     timestamp = 1000, synced = True\<rparr>"

text \<open>
  An enter event with coordinates of six decimal places. A text format for lists of
  compressed records, to stand for \<open>JSON.stringify\<close> and \<open>JSON.parse\<close>: the fields of a
  record are separated by \<open>|\<close>, every record ends with \<open>;\<close>, integers are written in
  decimal digits and a coordinate as its number of millionths of a degree.
\<close>

definition enterEvent :: OfflineEvent where
  "enterEvent = \<lparr>event_id = ''e2'', event_type = enter, regionId = ''work'',
     location = \<lparr>location_latitude = 48137154 / 1000000,
                 location_longitude = 11576124 / 1000000,
                 accuracy = None, location_timestamp = 8\<rparr>,
     timestamp = 2000, synced = False\<rparr>"

definition digitChar :: "nat \<Rightarrow> char" where
  "digitChar d = ''0123456789'' ! d"

definition digitValue :: "char \<Rightarrow> nat" where
  "digitValue c = length (takeWhile (\<lambda>x. x \<noteq> c) ''0123456789'')"

function showNat :: "nat \<Rightarrow> string" where
  "showNat n = (if n < 10 then [digitChar n] else showNat (n div 10) @ [digitChar (n mod 10)])"
  by pat_completeness auto
termination
  by (relation "measure (\<lambda>n. n)") auto

definition showInt :: "int \<Rightarrow> string" where
  "showInt k = (if k < 0 then CHR ''-'' # showNat (nat (- k)) else showNat (nat k))"

definition readNat :: "string \<Rightarrow> nat" where
  "readNat w = foldl (\<lambda>n c. 10 * n + digitValue c) 0 w"

definition readInt :: "string \<Rightarrow> int" where
  "readInt w = (case w of [] \<Rightarrow> 0
                | c # cs \<Rightarrow> if c = CHR ''-'' then - int (readNat cs) else int (readNat w))"

fun splitAt :: "char \<Rightarrow> string \<Rightarrow> string list" where
  "splitAt sep [] = [[]]"
| "splitAt sep (c # cs) =
     (if c = sep then [] # splitAt sep cs
      else (case splitAt sep cs of [] \<Rightarrow> [[c]] | w # ws \<Rightarrow> (c # w) # ws))"

definition writeItems :: "CompressedEvent list \<Rightarrow> string" where
  "writeItems items =
     concat (map (\<lambda>item.
       compressed_i item @ ''|'' @ showInt (compressed_t item) @ ''|'' @
       compressed_r item @ ''|'' @ showInt \<lfloor>compressed_lat item * 1000000\<rfloor> @ ''|'' @
       showInt \<lfloor>compressed_lng item * 1000000\<rfloor> @ ''|'' @
       showInt (compressed_ts item) @ '';'') items)"

definition readItem :: "string \<Rightarrow> CompressedEvent" where
  "readItem w =
     (let fields = splitAt CHR ''|'' w
      in \<lparr>compressed_i = fields ! 0, compressed_t = readInt (fields ! 1),
          compressed_r = fields ! 2,
          compressed_lat = of_int (readInt (fields ! 3)) / 1000000,
          compressed_lng = of_int (readInt (fields ! 4)) / 1000000,
          compressed_ts = readInt (fields ! 5)\<rparr>)"

definition readItems :: "string \<Rightarrow> CompressedEvent list" where
  "readItems w = map readItem (butlast (splitAt CHR '';'' w))"


text \<open>
  States of the offline manager with events to flush, and a webhook manager with one
  queued delivery; \<open>failedRound\<close> is a round of the delivery queue in which every request
  fails and the jitter is 0.
\<close>

definition flushState :: "(OfflineEvent list \<Rightarrow> bool) list \<Rightarrow> OfflineManager" where
  "flushState callbacks = \<lparr>offline_geofences = [],
     pendingEvents = [sampleEvent, sampleEvent\<lparr>event_id := ''e2'', synced := False\<rparr>,
                      sampleEvent\<lparr>event_id := ''e3'', synced := False\<rparr>],
     networkStatus = \<lparr>isConnected = True, connectionType = wifi, isExpensive = False,
                      lastConnected = 0\<rparr>,
     syncCallbacks = callbacks, syncInProgress = False, retryTimeouts = []\<rparr>"

text \<open>
  Two sinks that look at the batch they are handed: one accepts exactly the batch of the
  events \<open>e2\<close> and \<open>e3\<close>, the other rejects every batch that holds \<open>e3\<close>. A queue of 51
  unsynced events with a sink that accepts the batches of 50 events only.
\<close>

definition acceptsPair :: "OfflineEvent list \<Rightarrow> bool" where
  "acceptsPair batch = (map event_id batch = [''e2'', ''e3''])"

definition rejectsE3 :: "OfflineEvent list \<Rightarrow> bool" where
  "rejectsE3 batch = (''e3'' \<notin> set (map event_id batch))"

definition manyEvents :: "OfflineEvent list" where
  "manyEvents = map (\<lambda>k. sampleEvent\<lparr>timestamp := int k, synced := False\<rparr>) [0..<51]"

definition bulkState :: OfflineManager where
  "bulkState = \<lparr>offline_geofences = [], pendingEvents = manyEvents,
     networkStatus = \<lparr>isConnected = True, connectionType = wifi, isExpensive = False,
                      lastConnected = 0\<rparr>,
     syncCallbacks = [\<lambda>batch. length batch = 50], syncInProgress = False,
     retryTimeouts = []\<rparr>"












text \<open>
  Notions for the proofs about the spatial index and the evaluation pass.
  \<open>inBucket\<close>: the bucket of a cell holds a key. \<open>indexInv\<close>: every region of the region
  set is stored under its id, with the bounding box of its shape, and its key is in
  the bucket of every cell of that box. \<open>reachable\<close>: the states of a manager that
  starts empty and then adds regions, removes regions and checks locations.
  \<open>gateOpen\<close>: the region passes the time rules and the conditional rules.
  \<open>idsOf\<close>: the ids of the regions in the three lists of a result.
\<close>

definition inBucket :: "((int \<times> int) \<rightharpoonup> string list) \<Rightarrow> int \<times> int \<Rightarrow> string \<Rightarrow> bool" where
  "inBucket idx cell k = (case idx cell of None \<Rightarrow> False | Some ids \<Rightarrow> List.member ids k)"

definition indexInv :: "Manager \<Rightarrow> bool" where
  "indexInv s =
     (\<forall>k g. geofences s k = Some g \<longrightarrow>
        region_id g = k \<and> boundingBox g = Some (calculateBoundingBox g) \<and>
        list_all (\<lambda>cell. inBucket (spatialIndex s) cell k) (getGridCells (calculateBoundingBox g)))"

inductive reachable :: "Manager \<Rightarrow> bool" where
  new: "reachable (newManager hp)"
| add: "reachable s \<Longrightarrow> reachable (fst (addGeofence s region))"
| remove: "reachable s \<Longrightarrow> reachable (fst (removeGeofence s key))"
| check: "reachable s \<Longrightarrow> reachable (fst (checkLocation tz s point ts))"

definition gateOpen :: "(int \<Rightarrow> int) \<Rightarrow> AdvancedGeofenceRegion \<Rightarrow> int \<Rightarrow> bool" where
  "gateOpen tz g ts = (isTimeRuleActive tz g ts \<and> areConditionalRulesActive g)"

definition idsOf :: "CheckResult \<Rightarrow> string set" where
  "idsOf res = region_id ` (set (entered res) \<union> set (exited res) \<union> set (inside res))"

text \<open>
  A point inside \<open>triangleA\<close>. A circle of 5000 km around 60 degrees north on the prime
  meridian, and the north pole written with the longitude 180. A region over
  \<open>triangleA\<close> that is open from 09:00 to 17:00, the manager that holds it, and that
  manager after a fix inside the region at 12:00 of 1 January 1970.
\<close>

definition insidePoint :: Point where
  "insidePoint = \<lparr>latitude = 2 / 1000, longitude = 3 / 1000\<rparr>"




definition timedRegion :: AdvancedGeofenceRegion where
  "timedRegion = (plainRegion ''t'' triangleA None)\<lparr>timeRules := Some [officeRule]\<rparr>"

definition timedState :: Manager where
  "timedState = fst (addGeofence (newManager exampleHeap) timedRegion)"

definition timedInside :: Manager where
  "timedInside = fst (checkLocation (\<lambda>t. 0) timedState insidePoint 43200000)"

text \<open>
  An offline geofence of 100 m around the point (0, 0) that notifies on exit only, the
  offline manager that holds it, and a fix without accuracy.
\<close>

definition exitOnly :: OfflineGeofence where
  "exitOnly = \<lparr>geofence_id = ''g'', geofence_latitude = 0, geofence_longitude = 0,
     geofence_radius = 100, geofence_notifyOnEntry = False, geofence_notifyOnExit = True,
     isActive = True, lastEvaluated = 0, geofence_metadata = None\<rparr>"

definition exitOnlyState :: OfflineManager where
  "exitOnlyState = \<lparr>offline_geofences = [(''g'', exitOnly)], pendingEvents = [],
     networkStatus = \<lparr>isConnected = False, connectionType = none, isExpensive = False,
                      lastConnected = 0\<rparr>,
     syncCallbacks = [], syncInProgress = False, retryTimeouts = []\<rparr>"

definition fixAt :: "real \<Rightarrow> real \<Rightarrow> int \<Rightarrow> LocationPoint" where
  "fixAt lat lng t = \<lparr>location_latitude = lat, location_longitude = lng, accuracy = None,
                      location_timestamp = t\<rparr>"

section \<open>Time windows of the activation gate\<close>

lemma minute_of_day:
  "getHours tz ts * 60 + getMinutes tz ts = nat (localMinutes tz ts mod 1440)"
proof -
  define lm where "lm = localMinutes tz ts"
  have "lm mod (60 * 24) = 60 * (lm div 60 mod 24) + lm mod 60"
    by (rule zmod_zmult2_eq) simp
  then have "nat (lm mod 1440) = nat (60 * (lm div 60 mod 24) + lm mod 60)"
    by simp
  also have "\<dots> = nat (lm div 60 mod 24) * 60 + nat (lm mod 60)"
    by (simp add: nat_add_distrib nat_mult_distrib)
  finally show ?thesis by (simp add: getHours_def getMinutes_def lm_def)
qed

lemma anyRuleMatches_iff:
  "anyRuleMatches d t rules \<longleftrightarrow>
     (\<exists>rule \<in> set rules. time_rule_isActive rule \<and> d \<in> set (daysOfWeek rule)
          \<and> isTimeInRange t (startTime rule) (endTime rule))"
  by (induction rules) auto

text \<open>
  Claim C4, as the code has it. For a region with time rules, the gate is open at a
  timestamp exactly when some active rule lists the day of the week and the minute of
  the day \<open>m\<close> lies in the rule's window; for a rule with \<open>start \<le> end\<close> the window is the
  closed interval \<open>start \<le> m \<le> end\<close>, so the end minute is inside, and for
  \<open>start > end\<close> it wraps across midnight, \<open>m \<ge> start\<close> or \<open>m \<le> end\<close>.
\<close>

theorem time_window_closed:
  assumes "timeRules g = Some rules" and "rules \<noteq> []"
  shows "isTimeRuleActive tz g ts \<longleftrightarrow>
     (\<exists>rule \<in> set rules.
        time_rule_isActive rule \<and> getDay tz ts \<in> set (daysOfWeek rule) \<and>
        (let m = nat (localMinutes tz ts mod 1440);
             s = timeToMinutes (startTime rule);
             e = timeToMinutes (endTime rule)
         in if s \<le> e then s \<le> m \<and> m \<le> e else s \<le> m \<or> m \<le> e))"
proof -
  have m: "timeToMinutes (getHours tz ts, getMinutes tz ts) = nat (localMinutes tz ts mod 1440)"
    by (simp add: timeToMinutes_def minute_of_day)
  have "isTimeRuleActive tz g ts \<longleftrightarrow>
          anyRuleMatches (getDay tz ts) (getHours tz ts, getMinutes tz ts) rules"
    using assms by (simp add: isTimeRuleActive_def)
  then show ?thesis
    unfolding anyRuleMatches_iff isTimeInRange_def m Let_def by simp
qed

lemma date_at_17:
  "getDay (\<lambda>_. 0) 61200000 = 4" "getHours (\<lambda>_. 0) 61200000 = 17"
  "getMinutes (\<lambda>_. 0) 61200000 = 0" "localMinutes (\<lambda>_. 0) 61200000 = 1020"
  by (simp_all add: getDay_def getHours_def getMinutes_def localMinutes_def)

theorem time_window_closed_witness:
  "timeRules officeRegion = Some [officeRule] \<and> [officeRule] \<noteq> [] \<and>
   isTimeRuleActive (\<lambda>_. 0) officeRegion 61200000 \<and>
   \<not> isTimeRuleActive (\<lambda>_. 0) officeRegion 61260000"
proof -
  have r: "timeRules officeRegion = Some [officeRule]" by (simp add: officeRegion_def)
  have a: "isTimeRuleActive (\<lambda>_. 0) officeRegion 61200000"
    using time_window_closed [OF r, of "\<lambda>_. 0" 61200000]
    by (simp add: officeRule_def timeToMinutes_def getDay_def localMinutes_def)
  have b: "\<not> isTimeRuleActive (\<lambda>_. 0) officeRegion 61260000"
    using time_window_closed [OF r, of "\<lambda>_. 0" 61260000]
    by (simp add: officeRule_def timeToMinutes_def getDay_def localMinutes_def)
  from r a b show ?thesis by simp
qed

text \<open>
  Against the half-open window of claim C4: with \<open>start = 09:00 \<le> end = 17:00\<close>, the
  time 17:00 is in range, and the region above is active at 17:00 sharp, though the
  minute of the day, 1020, is not less than the end minute.
\<close>

theorem time_window_end_minute_counterexample:
  "timeToMinutes (9, 0) \<le> timeToMinutes (17, 0) \<and>
   isTimeInRange (17, 0) (9, 0) (17, 0) \<and>
   isTimeRuleActive (\<lambda>_. 0) officeRegion 61200000 \<and>
   nat (localMinutes (\<lambda>_. 0) 61200000 mod 1440) = timeToMinutes (endTime officeRule) \<and>
   \<not> (timeToMinutes (17, 0) < timeToMinutes (17, 0))"
  by (simp add: isTimeInRange_def timeToMinutes_def isTimeRuleActive_def officeRegion_def
      officeRule_def date_at_17)

section \<open>Adding regions: ids and the hierarchy ledger\<close>

lemma addToSpatialIndex_frame [simp]:
  "geofences (addToSpatialIndex s g) = geofences s"
  "hierarchies (addToSpatialIndex s g) = hierarchies s"
  "heap (addToSpatialIndex s g) = heap s"
  by (simp_all add: addToSpatialIndex_def split: option.split)

lemma updateHierarchyReferences_frame [simp]:
  "geofences (updateHierarchyReferences s h) = geofences s"
  "spatialIndex (updateHierarchyReferences s h) = spatialIndex s"
  "hierarchies (updateHierarchyReferences s h) = (hierarchies s)(hierarchy_id (heap s h) \<mapsto> h)"
  by (simp_all add: updateHierarchyReferences_def Let_def split: option.split)

lemma updateHierarchyReferences_parentId [simp]:
  "parentId (heap (updateHierarchyReferences s h) x) = parentId (heap s x)"
  by (simp add: updateHierarchyReferences_def Let_def split: option.split)

lemma plainRegion_sel [simp]:
  "region_id (plainRegion i vs h) = i" "hierarchy (plainRegion i vs h) = h"
  "vertices (plainRegion i vs h) = vs" "region_type (plainRegion i vs h) = polygon"
  by (simp_all add: plainRegion_def)

lemma cellsA: "getGridCells (calculateBoundingBox (plainRegion i triangleA h)) = [(0, 0)]"
  by (simp add: calculateBoundingBox_def plainRegion_def triangleA_def verticesBox_def
      getGridCells_def GRID_SIZE_def)

lemma cellsB: "getGridCells (calculateBoundingBox (plainRegion i triangleB h)) = [(2, 2)]"
  by (simp add: calculateBoundingBox_def plainRegion_def triangleB_def verticesBox_def
      getGridCells_def GRID_SIZE_def)

lemma triangles_differ: "triangleB \<noteq> triangleA"
  by (simp add: triangleA_def triangleB_def)

lemma stateA_eq:
  "stateA = \<lparr>geofences = [''a'' \<mapsto> withBox (plainRegion ''a'' triangleA (Some 0))],
              spatialIndex = [(0, 0) \<mapsto> [''a'']], hierarchies = [''a'' \<mapsto> 0],
              heap = exampleHeap\<rparr>"
  unfolding stateA_def addGeofence_def Let_def
  by (simp add: newManager_def addToSpatialIndex_def cellsA set_add_def
      updateHierarchyReferences_def truthyParent_def exampleHeap_def withBox_def)

lemma stateAB_eq:
  "stateAB = \<lparr>geofences = [''a'' \<mapsto> withBox (plainRegion ''a'' triangleA (Some 0)),
                             ''b'' \<mapsto> withBox (plainRegion ''b'' triangleB (Some 1))],
               spatialIndex = [(0, 0) \<mapsto> [''a''], (2, 2) \<mapsto> [''b'']],
               hierarchies = [''a'' \<mapsto> 0, ''b'' \<mapsto> 1],
               heap = exampleHeap(0 := (exampleHeap 0)\<lparr>children := [''b'']\<rparr>)\<rparr>"
  unfolding stateAB_def addGeofence_def Let_def stateA_eq
  by (simp add: addToSpatialIndex_def cellsB set_add_def updateHierarchyReferences_def
      truthyParent_def exampleHeap_def withBox_def)

text \<open>
  Claim C8, as the code has it. \<open>addGeofence\<close> rejects nothing, whether or not the id is
  already a key: it returns the region's id, the region set maps the id to the new
  region with its bounding box (in place of a former region of that id, the other ids
  as before), and when the region has a hierarchy the ledger maps the region's id and
  the hierarchy's id to it. The offline manager's \<open>addGeofence\<close> likewise stores the new
  geofence under its id.
\<close>

theorem addGeofence_replaces:
  "snd (addGeofence s region) = region_id region \<and>
   geofences (fst (addGeofence s region)) =
     (geofences s)(region_id region \<mapsto>
        region\<lparr>boundingBox := Some (calculateBoundingBox region)\<rparr>) \<and>
   hierarchies (fst (addGeofence s region)) =
     (case hierarchy region of
        None \<Rightarrow> hierarchies s
      | Some h \<Rightarrow> (hierarchies s)(region_id region \<mapsto> h, hierarchy_id (heap s h) \<mapsto> h)) \<and>
   map_of (offline_geofences (offline_addGeofence now os g)) (geofence_id g) =
     Some (GeofenceRegion.extend g (OfflineGeofence.fields True now None))"
  by (simp add: addGeofence_def Let_def offline_addGeofence_def update_conv' split: option.split)

theorem addGeofence_replaces_witness:
  "snd (addGeofence stateA duplicateA) = ''a'' \<and>
   geofences (fst (addGeofence stateA duplicateA)) ''a'' = Some (withBox duplicateA) \<and>
   hierarchies (fst (addGeofence stateA duplicateA)) ''a'' = Some 2"
  using addGeofence_replaces [of stateA duplicateA]
  by (simp add: duplicateA_def withBox_def stateA_eq exampleHeap_def)

text \<open>
  Against claim C8: the state \<open>stateA\<close> holds a region \<open>a\<close>; adding another region with
  the id \<open>a\<close> returns \<open>a\<close>, and afterwards the region set, the spatial index and the
  ledger have all changed.
\<close>

theorem duplicate_id_counterexample:
  "geofences stateA ''a'' = Some (withBox (plainRegion ''a'' triangleA (Some 0))) \<and>
   snd (addGeofence stateA duplicateA) = ''a'' \<and>
   geofences (fst (addGeofence stateA duplicateA)) ''a'' = Some (withBox duplicateA) \<and>
   vertices (withBox duplicateA) \<noteq> vertices (withBox (plainRegion ''a'' triangleA (Some 0))) \<and>
   spatialIndex stateA (2, 2) = None \<and>
   spatialIndex (fst (addGeofence stateA duplicateA)) (2, 2) = Some [''a''] \<and>
   hierarchies stateA ''a'' = Some 0 \<and>
   hierarchies (fst (addGeofence stateA duplicateA)) ''a'' = Some 2"
  unfolding addGeofence_def Let_def duplicateA_def
  by (simp add: stateA_eq addToSpatialIndex_def cellsB set_add_def withBox_def
      triangles_differ exampleHeap_def)

text \<open>
  Claim C9, as the code has it. Linking never fails: \<open>updateHierarchyReferences\<close> enters
  the hierarchy in the ledger under its id and, when its parent is in the ledger, the
  parent lists the child afterwards and the child keeps its parent pointer, whatever
  the ancestry of the two is.
\<close>

theorem link_accepts_any_parent:
  assumes "truthyParent (heap s h) = Some pid"
      and "((hierarchies s)(hierarchy_id (heap s h) \<mapsto> h)) pid = Some parent"
  shows "hierarchies (updateHierarchyReferences s h) =
           (hierarchies s)(hierarchy_id (heap s h) \<mapsto> h) \<and>
         List.member (children (heap (updateHierarchyReferences s h) parent))
           (hierarchy_id (heap s h)) \<and>
         parentId (heap (updateHierarchyReferences s h) h) = parentId (heap s h)"
  using assms by (simp add: updateHierarchyReferences_def Let_def)

text \<open>In \<open>stateA\<close> the region \<open>a\<close> is a child of \<open>b\<close>; \<open>b\<close> is linked under \<open>a\<close> all the same.\<close>

theorem link_accepts_any_parent_witness:
  "truthyParent (heap stateA 1) = Some ''a'' \<and>
   ((hierarchies stateA)(hierarchy_id (heap stateA 1) \<mapsto> 1)) ''a'' = Some 0 \<and>
   parentOf stateA ''a'' = Some ''b'' \<and>
   hierarchies (updateHierarchyReferences stateA 1) ''b'' = Some 1 \<and>
   List.member (children (heap (updateHierarchyReferences stateA 1) 0)) ''b'' \<and>
   parentId (heap (updateHierarchyReferences stateA 1) 1) = Some ''a''"
proof -
  have p: "truthyParent (heap stateA 1) = Some ''a''"
    by (simp add: stateA_eq truthyParent_def exampleHeap_def)
  have q: "((hierarchies stateA)(hierarchy_id (heap stateA 1) \<mapsto> 1)) ''a'' = Some 0"
    by (simp add: stateA_eq exampleHeap_def)
  have i: "hierarchy_id (heap stateA 1) = ''b''" "parentId (heap stateA 1) = Some ''a''"
    by (simp_all add: stateA_eq exampleHeap_def)
  have r: "parentOf stateA ''a'' = Some ''b''"
    by (simp add: stateA_eq parentOf_def truthyParent_def exampleHeap_def)
  from link_accepts_any_parent [OF p q] p q r show ?thesis
    unfolding i by simp
qed

text \<open>
  Against claim C9: in \<open>stateA\<close> the parent of \<open>a\<close> is \<open>b\<close>. Adding \<open>b\<close> with the parent \<open>a\<close>,
  a descendant of \<open>b\<close>, returns \<open>b\<close>, and the ledger then holds the cycle \<open>a\<close>, \<open>b\<close>, \<open>a\<close>.
\<close>

theorem hierarchy_cycle_counterexample:
  "parentOf stateA ''a'' = Some ''b'' \<and>
   snd (addGeofence stateA (plainRegion ''b'' triangleB (Some 1))) = ''b'' \<and>
   parentOf stateAB ''b'' = Some ''a'' \<and>
   parentOf stateAB ''a'' = Some ''b'' \<and>
   children (heap stateAB 0) = [''b'']"
  by (simp add: stateAB_eq stateA_eq parentOf_def truthyParent_def exampleHeap_def
      addGeofence_def Let_def)

section \<open>Compressing and decompressing events\<close>

lemma Math_round_int: "Math_round (of_int k) = of_int k"
  by (simp add: Math_round_def)

lemma round_six_decimals:
  assumes "x = of_int k / 1000000"
  shows "Math_round (x * 1000000) / 1000000 = x"
  using assms by (simp add: Math_round_int)

lemma written:
  "writeItems (compressedItems [sampleEvent, enterEvent]) =
     ''e1|0|home|1500000|-2250000|1000;e2|1|work|48137154|11576124|2000;''"
  by (simp add: writeItems_def compressedItems_def sampleEvent_def enterEvent_def Math_round_def
      showInt_def digitChar_def)

lemma read_back:
  "readItems ''e1|0|home|1500000|-2250000|1000;e2|1|work|48137154|11576124|2000;'' =
     compressedItems [sampleEvent, enterEvent]"
  by (simp add: readItems_def readItem_def compressedItems_def sampleEvent_def enterEvent_def
      Math_round_def readInt_def readNat_def digitValue_def)

text \<open>
  Claim C10. When \<open>JSON.parse\<close> gives back the list of compressed records that
  \<open>JSON.stringify\<close> was handed for these events, and every coordinate is a whole number
  of millionths of a degree, decompressing the compressed events gives one event per
  input event, in order, with the same id, type, region id, timestamp and coordinates;
  every output event has \<open>synced = False\<close>, its location has no accuracy, and the
  location's timestamp is the event's.
\<close>

theorem compress_roundtrip:
  assumes "parse (stringify (compressedItems events)) = compressedItems events"
      and "\<forall>e \<in> set events.
             (\<exists>k::int. location_latitude (location e) = of_int k / 1000000) \<and>
             (\<exists>k::int. location_longitude (location e) = of_int k / 1000000)"
  shows "length (decompressEvents parse (compressEvents stringify events)) = length events \<and>
         decompressEvents parse (compressEvents stringify events) =
           map (\<lambda>e. \<lparr>event_id = event_id e, event_type = event_type e, regionId = regionId e,
                       location = \<lparr>location_latitude = location_latitude (location e),
                                   location_longitude = location_longitude (location e),
                                   accuracy = None,
                                   location_timestamp = timestamp e\<rparr>,
                       timestamp = timestamp e, synced = False\<rparr>) events"
proof -
  have "event_type e \<noteq> enter \<Longrightarrow> exit = event_type e" for e :: OfflineEvent
    by (cases "event_type e") simp_all
  moreover have "Math_round (location_latitude (location e) * 1000000) / 1000000 =
                 location_latitude (location e)"
            and "Math_round (location_longitude (location e) * 1000000) / 1000000 =
                 location_longitude (location e)" if "e \<in> set events" for e
    using assms(2) that round_six_decimals by blast+
  ultimately show ?thesis
    unfolding decompressEvents_def compressEvents_def assms(1)
    by (auto simp add: compressedItems_def)
qed

text \<open>
  An exit event and an enter event, written as one string and read back from it.
\<close>

theorem compress_roundtrip_witness:
  "compressEvents writeItems [sampleEvent, enterEvent] =
     ''e1|0|home|1500000|-2250000|1000;e2|1|work|48137154|11576124|2000;'' \<and>
   readItems (writeItems (compressedItems [sampleEvent, enterEvent])) =
     compressedItems [sampleEvent, enterEvent] \<and>
   decompressEvents readItems (compressEvents writeItems [sampleEvent, enterEvent]) =
     [\<lparr>event_id = ''e1'', event_type = exit, regionId = ''home'',
       location = \<lparr>location_latitude = 3 / 2, location_longitude = - (9 / 4),
                   accuracy = None, location_timestamp = 1000\<rparr>,
       timestamp = 1000, synced = False\<rparr>,
      \<lparr>event_id = ''e2'', event_type = enter, regionId = ''work'',
       location = \<lparr>location_latitude = 48137154 / 1000000,
                   location_longitude = 11576124 / 1000000,
                   accuracy = None, location_timestamp = 2000\<rparr>,
       timestamp = 2000, synced = False\<rparr>]"
proof -
  have r: "readItems (writeItems (compressedItems [sampleEvent, enterEvent])) =
           compressedItems [sampleEvent, enterEvent]"
    unfolding written read_back ..
  have a: "\<exists>k::int. (3 / 2 :: real) = of_int k / 1000000"
    by (rule exI [of _ 1500000]) simp
  have b: "\<exists>k::int. (- (9 / 4) :: real) = of_int k / 1000000"
    by (rule exI [of _ "- 2250000"]) simp
  have c: "\<exists>k::int. (48137154 / 1000000 :: real) = of_int k / 1000000"
    by (rule exI [of _ 48137154]) simp
  have d: "\<exists>k::int. (11576124 / 1000000 :: real) = of_int k / 1000000"
    by (rule exI [of _ 11576124]) simp
  have h: "\<forall>e \<in> set [sampleEvent, enterEvent].
             (\<exists>k::int. location_latitude (location e) = of_int k / 1000000) \<and>
             (\<exists>k::int. location_longitude (location e) = of_int k / 1000000)"
    using a b c d by (simp add: sampleEvent_def enterEvent_def)
  have w: "compressEvents writeItems [sampleEvent, enterEvent] =
     ''e1|0|home|1500000|-2250000|1000;e2|1|work|48137154|11576124|2000;''"
    unfolding compressEvents_def by (rule written)
  from compress_roundtrip [of readItems writeItems "[sampleEvent, enterEvent]", OF r h] w r
  show ?thesis
    by (simp add: sampleEvent_def enterEvent_def)
qed

section \<open>Retry delays\<close>








section \<open>Flushing the offline queue\<close>

lemma concat_chunk: "0 < n \<Longrightarrow> concat (chunk n xs) = xs"
proof (induction n xs rule: chunk.induct)
  case (1 n xs)
  then show ?case by (subst chunk.simps) auto
qed

lemma batchLoop_chunk:
  assumes "0 < n"
  shows "batchLoop events n i acc = Some (acc @ chunk n (drop i events))"
proof (induction "length events - i" arbitrary: i acc rule: less_induct)
  case less
  show ?case
  proof (cases "i < length events")
    case True
    then have "length events - (i + n) < length events - i" using assms by simp
    from less [OF this]
    have "batchLoop events n (i + n) (acc @ [slice events i (i + n)]) =
          Some ((acc @ [slice events i (i + n)]) @ chunk n (drop (i + n) events))" .
    moreover have "chunk n (drop i events) = take n (drop i events) # chunk n (drop (i + n) events)"
      using True assms by (subst chunk.simps) (simp add: add.commute)
    ultimately show ?thesis
      using True by (subst batchLoop.simps) (simp add: slice_def)
  next
    case False
    then show ?thesis
      by (subst batchLoop.simps) (simp add: chunk.simps)
  qed
qed

lemma batchEvents_chunk: "0 < n \<Longrightarrow> batchEvents events n = Some (chunk n events)"
  by (simp add: batchEvents_def batchLoop_chunk)

lemma markSynced_length [simp]: "length (markSynced pe b) = length pe"
  unfolding markSynced_def by (induction b arbitrary: pe) simp_all

lemma markSynced_nth:
  "i < length pe \<Longrightarrow>
     markSynced pe b ! i = (if i \<in> set b then (pe ! i)\<lparr>synced := True\<rparr> else pe ! i)"
  unfolding markSynced_def
proof (induction b arbitrary: pe)
  case Nil
  show ?case by simp
next
  case (Cons j b)
  have "i < length (pe[j := (pe ! j)\<lparr>synced := True\<rparr>])" using Cons.prems by simp
  from Cons.IH [OF this] Cons.prems show ?case
    by (cases "i = j") (auto simp: nth_list_update)
qed

lemma syncBatches_step:
  "syncBatches callbacks (batch # batches) (pe, sc, fc) =
     (if batchOk callbacks pe batch
      then syncBatches callbacks batches (markSynced pe batch, sc + length batch, fc)
      else syncBatches callbacks batches (pe, sc, fc + length batch))"
  by (simp add: batchOk_def)

lemma batchOk_cong:
  assumes "\<forall>i \<in> set b. pe' ! i = pe ! i"
  shows "batchOk callbacks pe' b = batchOk callbacks pe b"
proof -
  have "map (\<lambda>i. pe' ! i) b = map (\<lambda>i. pe ! i) b" using assms by simp
  then show ?thesis by (simp only: batchOk_def)
qed

lemma syncBatches_spec:
  assumes "distinct (concat batches)" and "\<forall>i \<in> set (concat batches). i < length pe"
  shows "\<exists>pe'. syncBatches callbacks batches (pe, sc, fc) =
            (pe', sc + sum_list (map length (filter (batchOk callbacks pe) batches)),
                  fc + sum_list (map length (filter (\<lambda>b. \<not> batchOk callbacks pe b) batches))) \<and>
          length pe' = length pe \<and>
          (\<forall>i < length pe. i \<notin> set (concat batches) \<longrightarrow> pe' ! i = pe ! i) \<and>
          (\<forall>b \<in> set batches. \<forall>i \<in> set b.
              pe' ! i = (if batchOk callbacks pe b then (pe ! i)\<lparr>synced := True\<rparr> else pe ! i))"
  using assms
proof (induction batches arbitrary: pe sc fc)
  case Nil
  show ?case by simp
next
  case (Cons b bs)
  define q where "q = (if batchOk callbacks pe b then markSynced pe b else pe)"
  have len: "length q = length pe" by (simp add: q_def)
  have qn: "q ! i = (if batchOk callbacks pe b \<and> i \<in> set b then (pe ! i)\<lparr>synced := True\<rparr> else pe ! i)"
    if "i < length pe" for i
    using that by (simp add: q_def markSynced_nth)
  have d: "distinct (concat bs)" and disj: "set b \<inter> set (concat bs) = {}"
    using Cons.prems(1) by auto
  have r: "\<forall>i \<in> set (concat bs). i < length q" using Cons.prems(2) len by simp
  have same: "\<forall>i \<in> set c. q ! i = pe ! i" if "c \<in> set bs" for c
  proof
    fix i assume "i \<in> set c"
    with that have "i \<in> set (concat bs)" by auto
    with disj Cons.prems(2) have "i \<notin> set b" "i < length pe" by auto
    then show "q ! i = pe ! i" by (simp add: qn)
  qed
  have ok: "batchOk callbacks q c = batchOk callbacks pe c" if "c \<in> set bs" for c
    using same [OF that] by (rule batchOk_cong)
  have f1: "filter (batchOk callbacks q) bs = filter (batchOk callbacks pe) bs"
    using ok by (simp cong: filter_cong)
  have f2: "filter (\<lambda>c. \<not> batchOk callbacks q c) bs = filter (\<lambda>c. \<not> batchOk callbacks pe c) bs"
    using ok by (simp cong: filter_cong)
  define sc1 where "sc1 = (if batchOk callbacks pe b then sc + length b else sc)"
  define fc1 where "fc1 = (if batchOk callbacks pe b then fc else fc + length b)"
  from Cons.IH [OF d r, of sc1 fc1]
  obtain pe' where res: "syncBatches callbacks bs (q, sc1, fc1) =
      (pe', sc1 + sum_list (map length (filter (batchOk callbacks q) bs)),
            fc1 + sum_list (map length (filter (\<lambda>c. \<not> batchOk callbacks q c) bs)))"
    and l': "length pe' = length q"
    and out: "\<forall>i < length q. i \<notin> set (concat bs) \<longrightarrow> pe' ! i = q ! i"
    and inn: "\<forall>c \<in> set bs. \<forall>i \<in> set c.
                pe' ! i = (if batchOk callbacks q c then (q ! i)\<lparr>synced := True\<rparr> else q ! i)"
    by blast
  have step: "syncBatches callbacks (b # bs) (pe, sc, fc) = syncBatches callbacks bs (q, sc1, fc1)"
    unfolding syncBatches_step q_def sc1_def fc1_def by simp
  have A: "syncBatches callbacks (b # bs) (pe, sc, fc) =
      (pe', sc + sum_list (map length (filter (batchOk callbacks pe) (b # bs))),
            fc + sum_list (map length (filter (\<lambda>c. \<not> batchOk callbacks pe c) (b # bs))))"
    unfolding step res f1 f2 by (simp add: sc1_def fc1_def)
  have B: "length pe' = length pe" using l' len by simp
  have C: "\<forall>i < length pe. i \<notin> set (concat (b # bs)) \<longrightarrow> pe' ! i = pe ! i"
    using out len qn by auto
  have D: "\<forall>c \<in> set (b # bs). \<forall>i \<in> set c.
      pe' ! i = (if batchOk callbacks pe c then (pe ! i)\<lparr>synced := True\<rparr> else pe ! i)"
  proof (intro ballI)
    fix c i assume c: "c \<in> set (b # bs)" and i: "i \<in> set c"
    then have il: "i < length pe" using Cons.prems(2) by auto
    show "pe' ! i = (if batchOk callbacks pe c then (pe ! i)\<lparr>synced := True\<rparr> else pe ! i)"
    proof (cases "c \<in> set bs")
      case True
      with inn i have "pe' ! i = (if batchOk callbacks q c then (q ! i)\<lparr>synced := True\<rparr> else q ! i)"
        by blast
      then show ?thesis using ok [OF True] same [OF True] i by simp
    next
      case False
      with c have cb: "c = b" by simp
      with i disj have "i \<notin> set (concat bs)" by auto
      with out il len have "pe' ! i = q ! i" by simp
      then show ?thesis using qn [OF il] i cb by simp
    qed
  qed
  from A B C D show ?case by blast
qed

lemma filter_by_index:
  "filter P xs = map ((!) xs) (filter (\<lambda>i. P (xs ! i)) [0..<length xs])"
proof -
  have "filter P (map ((!) xs) [0..<length xs]) =
        map ((!) xs) (filter (P \<circ> (!) xs) [0..<length xs])"
    by (rule filter_map)
  then show ?thesis by (simp add: map_nth comp_def)
qed

lemma filter_concat_selected:
  assumes "distinct (concat bs)"
  shows "filter (\<lambda>i. i \<in> set (concat (filter Q bs))) (concat bs) = concat (filter Q bs)"
  using assms
proof (induction bs)
  case Nil
  show ?case by simp
next
  case (Cons b bs)
  then have d: "distinct (concat bs)" and disj: "set b \<inter> set (concat bs) = {}"
    and IH: "filter (\<lambda>i. i \<in> set (concat (filter Q bs))) (concat bs) = concat (filter Q bs)"
    by auto
  have sub: "set (concat (filter Q bs)) \<subseteq> set (concat bs)" by auto
  have onb: "filter (\<lambda>i. i \<in> set (concat (filter Q (b # bs)))) b = (if Q b then b else [])"
    using disj sub by (auto simp: filter_empty_conv filter_id_conv)
  have onrest: "filter (\<lambda>i. i \<in> set (concat (filter Q (b # bs)))) (concat bs) =
                filter (\<lambda>i. i \<in> set (concat (filter Q bs))) (concat bs)"
    using disj by (intro filter_cong) auto
  show ?case
    using onb onrest IH by simp
qed

lemma distinct_concat_unique:
  "distinct (concat bs) \<Longrightarrow> b \<in> set bs \<Longrightarrow> c \<in> set bs \<Longrightarrow> i \<in> set b \<Longrightarrow> i \<in> set c
     \<Longrightarrow> b = c"
  by (induction bs) auto

lemma unsyncedRefs_props:
  "distinct (unsyncedRefs pe)" "\<forall>i \<in> set (unsyncedRefs pe). i < length pe"
  "i < length pe \<Longrightarrow> i \<in> set (unsyncedRefs pe) \<longleftrightarrow> \<not> synced (pe ! i)"
  by (simp_all add: unsyncedRefs_def)

lemma prune_after_sync:
  assumes cat: "concat batches = unsyncedRefs pe"
      and len: "length pe' = length pe"
      and out: "\<forall>i < length pe. i \<notin> set (concat batches) \<longrightarrow> pe' ! i = pe ! i"
      and inn: "\<forall>b \<in> set batches. \<forall>i \<in> set b.
                  pe' ! i = (if ok b then (pe ! i)\<lparr>synced := True\<rparr> else pe ! i)"
  shows "filter (\<lambda>e. \<not> synced e) pe' = map ((!) pe) (concat (filter (\<lambda>b. \<not> ok b) batches))"
proof -
  define F where "F = concat (filter (\<lambda>b. \<not> ok b) batches)"
  have d: "distinct (concat batches)" by (simp add: cat unsyncedRefs_props)
  have FU: "set F \<subseteq> set (unsyncedRefs pe)" unfolding F_def cat [symmetric] by auto
  have key: "(\<not> synced (pe' ! i)) = (i \<in> set F)" and keep: "i \<in> set F \<Longrightarrow> pe' ! i = pe ! i"
    if i: "i < length pe" for i
  proof -
    show "(\<not> synced (pe' ! i)) = (i \<in> set F)"
    proof (cases "i \<in> set (unsyncedRefs pe)")
      case False
      with out i cat have "pe' ! i = pe ! i" by simp
      moreover from False i have "synced (pe ! i)" by (simp add: unsyncedRefs_props)
      ultimately show ?thesis using False FU by auto
    next
      case True
      then obtain b where b: "b \<in> set batches" "i \<in> set b"
        unfolding cat [symmetric] by auto
      have uniq: "c = b" if "c \<in> set batches" "i \<in> set c" for c
        using distinct_concat_unique [OF d that(1) b(1) that(2) b(2)] .
      have un: "\<not> synced (pe ! i)" using True i by (simp add: unsyncedRefs_props)
      have "i \<in> set F \<longleftrightarrow> (\<exists>c \<in> set batches. \<not> ok c \<and> i \<in> set c)"
        unfolding F_def by auto
      also have "\<dots> \<longleftrightarrow> \<not> ok b"
      proof
        assume "\<exists>c \<in> set batches. \<not> ok c \<and> i \<in> set c"
        then obtain c where c: "c \<in> set batches" "\<not> ok c" "i \<in> set c" by blast
        from uniq [OF c(1) c(3)] c(2) show "\<not> ok b" by simp
      next
        assume "\<not> ok b"
        with b show "\<exists>c \<in> set batches. \<not> ok c \<and> i \<in> set c" by blast
      qed
      finally have "i \<in> set F \<longleftrightarrow> \<not> ok b" .
      moreover have "pe' ! i = (if ok b then (pe ! i)\<lparr>synced := True\<rparr> else pe ! i)"
        using inn b by blast
      ultimately show ?thesis using un by simp
    qed
    show "pe' ! i = pe ! i" if "i \<in> set F"
    proof -
      from that obtain b where b: "b \<in> set batches" "\<not> ok b" "i \<in> set b"
        unfolding F_def by auto
      with inn show ?thesis by auto
    qed
  qed
  have "filter (\<lambda>e. \<not> synced e) pe' =
        map ((!) pe') (filter (\<lambda>i. \<not> synced (pe' ! i)) [0..<length pe'])"
    by (rule filter_by_index)
  also have "filter (\<lambda>i. \<not> synced (pe' ! i)) [0..<length pe'] = filter (\<lambda>i. i \<in> set F) [0..<length pe]"
    unfolding len using key by (intro filter_cong) auto
  also have "map ((!) pe') (filter (\<lambda>i. i \<in> set F) [0..<length pe]) =
             map ((!) pe) (filter (\<lambda>i. i \<in> set F) [0..<length pe])"
    using keep by simp
  also have "filter (\<lambda>i. i \<in> set F) [0..<length pe] =
             filter (\<lambda>i. i \<in> set F) (unsyncedRefs pe)"
  proof -
    have "filter (\<lambda>i. i \<in> set F) (unsyncedRefs pe) =
          filter (\<lambda>i. \<not> synced (pe ! i) \<and> i \<in> set F) [0..<length pe]"
      by (simp add: unsyncedRefs_def)
    also have "\<dots> = filter (\<lambda>i. i \<in> set F) [0..<length pe]"
    proof (intro filter_cong refl)
      fix i assume "i \<in> set [0..<length pe]"
      then have il: "i < length pe" by simp
      show "(\<not> synced (pe ! i) \<and> i \<in> set F) = (i \<in> set F)"
        using FU unsyncedRefs_props(3) [OF il] by blast
    qed
    finally show ?thesis by simp
  qed
  also have "filter (\<lambda>i. i \<in> set F) (unsyncedRefs pe) = F"
    unfolding F_def cat [symmetric] using d by (rule filter_concat_selected)
  finally show ?thesis by (simp add: F_def)
qed

lemma batchOk_iff:
  "batchOk callbacks pe = (\<lambda>b. \<forall>callback \<in> set callbacks. callback (map ((!) pe) b))"
  by (rule ext) (simp add: batchOk_def promiseAll_def list_all_iff)

text \<open>
  Claim C6. A flush that passes the guard and finds unsynced events cuts their
  references into batches, in order. A batch is marked synced exactly when every
  registered callback succeeds on the events of that batch: after the loop over the
  batches every event of a batch has \<open>synced\<close> equal to that outcome (and is otherwise as
  before). The pending queue afterwards consists of exactly the events of the batches
  on which some callback failed, in order and unchanged, so with \<open>synced = False\<close>: the
  events of the successful batches, and the events that were synced before, are pruned.
  The counts of the result are the sizes of the successful and of the failed batches.
\<close>

theorem flush_batches:
  assumes "\<not> syncInProgress s" and "isConnected (networkStatus s)"
      and "unsyncedRefs (pendingEvents s) \<noteq> []"
  shows "\<exists>batches marked.
           batchEvents (unsyncedRefs (pendingEvents s)) 50 = Some batches \<and>
           concat batches = unsyncedRefs (pendingEvents s) \<and>
           marked = fst (syncBatches (syncCallbacks s) batches (pendingEvents s, 0, 0)) \<and>
           (\<forall>b \<in> set batches. \<forall>i \<in> set b.
              marked ! i =
                (pendingEvents s ! i)\<lparr>synced :=
                   (\<forall>callback \<in> set (syncCallbacks s).
                      callback (map (\<lambda>j. pendingEvents s ! j) b))\<rparr>) \<and>
           syncPendingEvents s =
             Some (s\<lparr>pendingEvents :=
                       map (\<lambda>j. pendingEvents s ! j)
                         (concat (filter
                            (\<lambda>b. \<not> (\<forall>callback \<in> set (syncCallbacks s).
                                       callback (map (\<lambda>j. pendingEvents s ! j) b)))
                            batches)),
                     syncInProgress := False\<rparr>,
                   \<lparr>success = (0 < sum_list (map length (filter
                       (\<lambda>b. \<forall>callback \<in> set (syncCallbacks s).
                               callback (map (\<lambda>j. pendingEvents s ! j) b)) batches))),
                    synced_count = sum_list (map length (filter
                       (\<lambda>b. \<forall>callback \<in> set (syncCallbacks s).
                               callback (map (\<lambda>j. pendingEvents s ! j) b)) batches)),
                    failed_count = sum_list (map length (filter
                       (\<lambda>b. \<not> (\<forall>callback \<in> set (syncCallbacks s).
                                  callback (map (\<lambda>j. pendingEvents s ! j) b)))
                       batches))\<rparr>)"
proof -
  define pe where "pe = pendingEvents s"
  define cbs where "cbs = syncCallbacks s"
  define batches where "batches = chunk 50 (unsyncedRefs pe)"
  have be: "batchEvents (unsyncedRefs pe) 50 = Some batches"
    by (simp add: batchEvents_chunk batches_def)
  have cat: "concat batches = unsyncedRefs pe"
    by (simp add: batches_def concat_chunk)
  have d: "distinct (concat batches)" and r: "\<forall>i \<in> set (concat batches). i < length pe"
    by (simp_all add: cat unsyncedRefs_props)
  from syncBatches_spec [OF d r, of cbs 0 0]
  obtain pe' where res: "syncBatches cbs batches (pe, 0, 0) =
        (pe', sum_list (map length (filter (batchOk cbs pe) batches)),
              sum_list (map length (filter (\<lambda>b. \<not> batchOk cbs pe b) batches)))"
    and len: "length pe' = length pe"
    and out: "\<forall>i < length pe. i \<notin> set (concat batches) \<longrightarrow> pe' ! i = pe ! i"
    and inn: "\<forall>b \<in> set batches. \<forall>i \<in> set b.
                pe' ! i = (if batchOk cbs pe b then (pe ! i)\<lparr>synced := True\<rparr> else pe ! i)"
    by auto
  have marked: "\<forall>b \<in> set batches. \<forall>i \<in> set b. pe' ! i = (pe ! i)\<lparr>synced := batchOk cbs pe b\<rparr>"
  proof (intro ballI)
    fix b i assume b: "b \<in> set batches" and i: "i \<in> set b"
    then have "i \<in> set (unsyncedRefs pe)" unfolding cat [symmetric] by auto
    then have "\<not> synced (pe ! i)" by (simp add: unsyncedRefs_def)
    then have "(pe ! i)\<lparr>synced := False\<rparr> = pe ! i" by simp
    with inn b i show "pe' ! i = (pe ! i)\<lparr>synced := batchOk cbs pe b\<rparr>" by auto
  qed
  have prune: "filter (\<lambda>e. \<not> synced e) pe' =
               map ((!) pe) (concat (filter (\<lambda>b. \<not> batchOk cbs pe b) batches))"
    using cat len out inn by (rule prune_after_sync)
  have run: "syncPendingEvents s =
      Some (s\<lparr>pendingEvents := map ((!) pe) (concat (filter (\<lambda>b. \<not> batchOk cbs pe b) batches)),
              syncInProgress := False\<rparr>,
            \<lparr>success = (0 < sum_list (map length (filter (batchOk cbs pe) batches))),
             synced_count = sum_list (map length (filter (batchOk cbs pe) batches)),
             failed_count = sum_list (map length (filter (\<lambda>b. \<not> batchOk cbs pe b) batches))\<rparr>)"
    using assms be res prune
    by (simp add: syncPendingEvents_def Let_def pe_def [symmetric] cbs_def [symmetric])
  have "fst (syncBatches cbs batches (pe, 0, 0)) = pe'" by (simp add: res)
  with be cat marked run show ?thesis
    unfolding batchOk_iff pe_def cbs_def by blast
qed

lemma flushState_sel [simp]:
  "syncInProgress (flushState cbs) = False" "isConnected (networkStatus (flushState cbs)) = True"
  "syncCallbacks (flushState cbs) = cbs"
  "pendingEvents (flushState cbs) =
     [sampleEvent, sampleEvent\<lparr>event_id := ''e2'', synced := False\<rparr>,
      sampleEvent\<lparr>event_id := ''e3'', synced := False\<rparr>]"
  by (simp_all add: flushState_def)

lemma flushState_unsynced: "unsyncedRefs (pendingEvents (flushState cbs)) = [1, 2]"
  by (simp add: unsyncedRefs_def sampleEvent_def upt_rec_numeral)

lemma chunk_short:
  assumes "xs \<noteq> []" and "length xs \<le> n"
  shows "chunk n xs = [xs]"
proof -
  have "0 < n" using assms by (cases xs) auto
  then show ?thesis using assms by (subst chunk.simps, subst chunk.simps) auto
qed

lemma unsyncedRefs_all:
  assumes "list_all (\<lambda>e. \<not> synced e) pe"
  shows "unsyncedRefs pe = [0..<length pe]"
proof -
  have "\<forall>i \<in> set [0..<length pe]. \<not> synced (pe ! i)"
    using assms by (simp add: list_all_length)
  then show ?thesis unfolding unsyncedRefs_def by (simp only: filter_True)
qed

lemma manyEvents_refs: "unsyncedRefs manyEvents = [0..<51]"
proof -
  have "list_all (\<lambda>e. \<not> synced e) manyEvents"
    by (simp add: manyEvents_def list_all_iff)
  then have "unsyncedRefs manyEvents = [0..<length manyEvents]" by (rule unsyncedRefs_all)
  then show ?thesis by (simp add: manyEvents_def)
qed

lemma chunk_51: "chunk 50 [0..<51] = [[0..<50], [50]]"
proof -
  have a: "take 50 [0..<51] = [0..<50]" by (simp add: take_upt)
  have b: "drop 50 [0..<51] = [50]" by (simp add: drop_upt upt_rec)
  have c: "chunk 50 [50::nat] = [[50]]" by (rule chunk_short) simp_all
  have "[0..<51] \<noteq> []" by simp
  then have "chunk 50 [0..<51] = take 50 [0..<51] # chunk 50 (drop 50 [0..<51])"
    by (subst chunk.simps) simp
  then show ?thesis unfolding a b c .
qed

text \<open>
  One synced and two unsynced events, in one batch: with the sink that accepts that very
  batch the queue is empty afterwards; with a second sink that rejects the batch the two
  unsynced events stay. 51 unsynced events, in a batch of 50 and a batch of one, with a
  sink that accepts batches of 50 events only: the first 50 events are pruned and the
  last one stays.
\<close>

theorem flush_batches_witness:
  "\<not> syncInProgress (flushState [acceptsPair]) \<and>
   isConnected (networkStatus (flushState [acceptsPair])) \<and>
   unsyncedRefs (pendingEvents (flushState [acceptsPair])) = [1, 2] \<and>
   syncPendingEvents (flushState [acceptsPair]) =
     Some ((flushState [acceptsPair])\<lparr>pendingEvents := []\<rparr>,
           \<lparr>success = True, synced_count = 2, failed_count = 0\<rparr>) \<and>
   syncPendingEvents (flushState [acceptsPair, rejectsE3]) =
     Some ((flushState [acceptsPair, rejectsE3])\<lparr>pendingEvents :=
              [sampleEvent\<lparr>event_id := ''e2'', synced := False\<rparr>,
               sampleEvent\<lparr>event_id := ''e3'', synced := False\<rparr>]\<rparr>,
           \<lparr>success = False, synced_count = 0, failed_count = 2\<rparr>) \<and>
   unsyncedRefs (pendingEvents bulkState) = [0..<51] \<and>
   syncPendingEvents bulkState =
     Some (bulkState\<lparr>pendingEvents := [sampleEvent\<lparr>timestamp := 50, synced := False\<rparr>]\<rparr>,
           \<lparr>success = True, synced_count = 50, failed_count = 1\<rparr>)"
proof -
  have run: "\<exists>batches. batchEvents [1, 2 :: nat] 50 = Some batches \<and>
      syncPendingEvents (flushState cbs) =
        Some ((flushState cbs)\<lparr>pendingEvents :=
                 map (\<lambda>j. pendingEvents (flushState cbs) ! j)
                   (concat (filter
                      (\<lambda>b. \<not> (\<forall>callback \<in> set cbs.
                                 callback (map (\<lambda>j. pendingEvents (flushState cbs) ! j) b)))
                      batches)),
               syncInProgress := False\<rparr>,
              \<lparr>success = (0 < sum_list (map length (filter
                  (\<lambda>b. \<forall>callback \<in> set cbs.
                          callback (map (\<lambda>j. pendingEvents (flushState cbs) ! j) b)) batches))),
               synced_count = sum_list (map length (filter
                  (\<lambda>b. \<forall>callback \<in> set cbs.
                          callback (map (\<lambda>j. pendingEvents (flushState cbs) ! j) b)) batches)),
               failed_count = sum_list (map length (filter
                  (\<lambda>b. \<not> (\<forall>callback \<in> set cbs.
                             callback (map (\<lambda>j. pendingEvents (flushState cbs) ! j) b)))
                  batches))\<rparr>)"
    for cbs
    using flush_batches [of "flushState cbs"]
    unfolding flushState_unsynced flushState_sel(1,2,3) by blast
  have b: "batchEvents [1, 2 :: nat] 50 = Some batches \<longleftrightarrow> batches = [[1, 2]]" for batches
    by (auto simp add: batchEvents_chunk chunk_short)
  have ok: "acceptsPair (map (\<lambda>j. pendingEvents (flushState cbs) ! j) [1, 2])"
           "\<not> rejectsE3 (map (\<lambda>j. pendingEvents (flushState cbs) ! j) [1, 2])" for cbs
    by (simp_all add: acceptsPair_def rejectsE3_def)
  have A: "syncPendingEvents (flushState [acceptsPair]) =
     Some ((flushState [acceptsPair])\<lparr>pendingEvents := []\<rparr>,
           \<lparr>success = True, synced_count = 2, failed_count = 0\<rparr>)"
    using run [of "[acceptsPair]"] ok [of "[acceptsPair]"] unfolding b
    by (simp add: flushState_def)
  have B: "syncPendingEvents (flushState [acceptsPair, rejectsE3]) =
     Some ((flushState [acceptsPair, rejectsE3])\<lparr>pendingEvents :=
              [sampleEvent\<lparr>event_id := ''e2'', synced := False\<rparr>,
               sampleEvent\<lparr>event_id := ''e3'', synced := False\<rparr>]\<rparr>,
           \<lparr>success = False, synced_count = 0, failed_count = 2\<rparr>)"
    using run [of "[acceptsPair, rejectsE3]"] ok [of "[acceptsPair, rejectsE3]"] unfolding b
    by (simp add: flushState_def)
  have sel: "\<not> syncInProgress bulkState" "isConnected (networkStatus bulkState)"
    "pendingEvents bulkState = manyEvents"
    "syncCallbacks bulkState = [\<lambda>batch. length batch = 50]"
    by (simp_all add: bulkState_def)
  have ne: "unsyncedRefs (pendingEvents bulkState) \<noteq> []"
    unfolding sel manyEvents_refs by simp
  have c: "batchEvents [0..<51] 50 = Some batches \<longleftrightarrow> batches = [[0..<50], [50]]" for batches
    by (auto simp add: batchEvents_chunk chunk_51)
  have n: "manyEvents ! 50 = sampleEvent\<lparr>timestamp := 50, synced := False\<rparr>"
    by (simp add: manyEvents_def)
  have upd: "bulkState\<lparr>pendingEvents := x, syncInProgress := False\<rparr> =
             bulkState\<lparr>pendingEvents := x\<rparr>" for x
    by (simp add: bulkState_def)
  have C: "syncPendingEvents bulkState =
     Some (bulkState\<lparr>pendingEvents := [sampleEvent\<lparr>timestamp := 50, synced := False\<rparr>]\<rparr>,
           \<lparr>success = True, synced_count = 50, failed_count = 1\<rparr>)"
    using flush_batches [OF sel(1,2) ne]
    unfolding sel manyEvents_refs c by (simp add: n upd)
  from A B C flushState_unsynced [of "[acceptsPair]"] manyEvents_refs sel(3)
  show ?thesis by simp
qed

section \<open>Retries after failed deliveries\<close>





















section \<open>Polygons lie inside their bounding boxes\<close>

lemma edge_parameter:
  fixes y yi yj :: real
  assumes "(yi > y) \<noteq> (yj > y)"
  shows "0 \<le> (y - yi) / (yj - yi) \<and> (y - yi) / (yj - yi) \<le> 1"
proof (cases "yi > y")
  case True
  with assms have "yj \<le> y" by auto
  with True have "yj - yi < 0" "y - yi < 0" "yj - yi \<le> y - yi" by auto
  then show ?thesis by (simp add: divide_le_eq zero_le_divide_iff)
next
  case False
  with assms have "yj > y" by auto
  with False have "0 < yj - yi" "0 \<le> y - yi" "y - yi \<le> yj - yi" by auto
  then show ?thesis by (simp add: divide_le_eq)
qed

lemma edge_point_between:
  fixes y yi yj xi xj :: real
  assumes "(yi > y) \<noteq> (yj > y)"
  shows "min xi xj \<le> (xj - xi) * (y - yi) / (yj - yi) + xi"
    and "(xj - xi) * (y - yi) / (yj - yi) + xi \<le> max xi xj"
proof -
  define t where "t = (y - yi) / (yj - yi)"
  have t: "0 \<le> t" "t \<le> 1" using edge_parameter [OF assms] by (simp_all add: t_def)
  have e: "(xj - xi) * (y - yi) / (yj - yi) + xi = xi + t * (xj - xi)"
    by (simp add: t_def)
  show "min xi xj \<le> (xj - xi) * (y - yi) / (yj - yi) + xi"
  proof (cases "xi \<le> xj")
    case True
    then have "0 \<le> t * (xj - xi)" using t by simp
    with True show ?thesis unfolding e by simp
  next
    case False
    then have "0 \<le> (1 - t) * (xi - xj)" using t by simp
    then have "xj \<le> xi + t * (xj - xi)" by (simp add: algebra_simps)
    with False show ?thesis unfolding e by simp
  qed
  show "(xj - xi) * (y - yi) / (yj - yi) + xi \<le> max xi xj"
  proof (cases "xi \<le> xj")
    case True
    then have "0 \<le> (1 - t) * (xj - xi)" using t by simp
    then have "xi + t * (xj - xi) \<le> xj" by (simp add: algebra_simps)
    with True show ?thesis unfolding e by simp
  next
    case False
    then have "t * (xj - xi) \<le> 0" using t by (simp add: mult_nonneg_nonpos)
    with False show ?thesis unfolding e by simp
  qed
qed

lemma crosses_bounds:
  assumes "crosses x y vi vj"
  shows "min (latitude vi) (latitude vj) \<le> y" and "y \<le> max (latitude vi) (latitude vj)"
    and "x \<le> max (longitude vi) (longitude vj)"
proof -
  from assms have s: "(latitude vi > y) \<noteq> (latitude vj > y)"
    and l: "x < (longitude vj - longitude vi) * (y - latitude vi) / (latitude vj - latitude vi)
                 + longitude vi"
    by (simp_all add: crosses_def Let_def)
  from s show "min (latitude vi) (latitude vj) \<le> y" "y \<le> max (latitude vi) (latitude vj)"
    by (auto simp: min_def max_def)
  from l edge_point_between(2) [OF s, where xi = "longitude vi" and xj = "longitude vj"]
  show "x \<le> max (longitude vi) (longitude vj)" by simp
qed

lemma crosses_left_of_both:
  assumes "x < longitude vi" and "x < longitude vj"
  shows "crosses x y vi vj \<longleftrightarrow> ((latitude vi > y) \<noteq> (latitude vj > y))"
proof (cases "(latitude vi > y) \<noteq> (latitude vj > y)")
  case True
  from edge_point_between(1) [OF True, where xi = "longitude vi" and xj = "longitude vj"] assms
  have "x < (longitude vj - longitude vi) * (y - latitude vi) / (latitude vj - latitude vi)
              + longitude vi" by (simp add: min_def split: if_splits)
  with True show ?thesis by (simp add: crosses_def Let_def)
next
  case False
  then show ?thesis by (simp add: crosses_def Let_def)
qed

lemma ray_loop_crossing:
  assumes "ray_loop x y vj vs ins \<noteq> ins"
  shows "\<exists>vi vk. vi \<in> set vs \<and> vk \<in> set (vj # vs) \<and> crosses x y vi vk"
  using assms
proof (induction vs arbitrary: vj ins)
  case Nil
  then show ?case by simp
next
  case (Cons v vs)
  show ?case
  proof (cases "crosses x y v vj")
    case True
    then show ?thesis by auto
  next
    case False
    with Cons.prems have "ray_loop x y v vs ins \<noteq> ins" by simp
    from Cons.IH [OF this] show ?thesis by auto
  qed
qed

lemma ray_loop_left:
  assumes "\<forall>v \<in> set (vj # vs). x < longitude v"
  shows "ray_loop x y vj vs ins =
           (ins \<noteq> ((latitude vj > y) \<noteq> (latitude (last (vj # vs)) > y)))"
  using assms
proof (induction vs arbitrary: vj ins)
  case Nil
  show ?case by simp
next
  case (Cons v vs)
  have c: "crosses x y v vj \<longleftrightarrow> ((latitude v > y) \<noteq> (latitude vj > y))"
    using Cons.prems by (intro crosses_left_of_both) auto
  have "\<forall>u \<in> set (v # vs). x < longitude u" using Cons.prems by auto
  from Cons.IH [OF this] show ?case
    by (simp add: c) blast
qed

lemma polygon_in_box:
  assumes "isPointInPolygon point vs"
  shows "vs \<noteq> []"
    and "Min (set (map latitude vs)) \<le> latitude point"
    and "latitude point \<le> Max (set (map latitude vs))"
    and "Min (set (map longitude vs)) \<le> longitude point"
    and "longitude point \<le> Max (set (map longitude vs))"
proof -
  from assms have n: "\<not> length vs < 3"
    and r: "ray_loop (longitude point) (latitude point) (last vs) vs False"
    by (simp_all add: isPointInPolygon_def split: if_splits)
  from n show ne: "vs \<noteq> []" by auto
  from r have "ray_loop (longitude point) (latitude point) (last vs) vs False \<noteq> False" by simp
  from ray_loop_crossing [OF this]
  obtain vi vk where e: "vi \<in> set vs" "vk \<in> set (last vs # vs)"
      "crosses (longitude point) (latitude point) vi vk"
    by blast
  from e(2) ne have k: "vk \<in> set vs" by auto
  have lat: "Min (set (map latitude vs)) \<le> latitude v" "latitude v \<le> Max (set (map latitude vs))"
   and lng: "Min (set (map longitude vs)) \<le> longitude v" "longitude v \<le> Max (set (map longitude vs))"
    if "v \<in> set vs" for v
    using that by simp_all
  from crosses_bounds [OF e(3)] lat [OF e(1)] lat [OF k] lng [OF e(1)] lng [OF k]
  show "Min (set (map latitude vs)) \<le> latitude point"
       "latitude point \<le> Max (set (map latitude vs))"
       "longitude point \<le> Max (set (map longitude vs))"
    by (auto simp: min_def max_def split: if_splits)
  show "Min (set (map longitude vs)) \<le> longitude point"
  proof (rule ccontr)
    assume "\<not> Min (set (map longitude vs)) \<le> longitude point"
    then have "longitude point < longitude v" if "v \<in> set vs" for v
      using lng(1) [OF that] by simp
    then have "\<forall>v \<in> set (last vs # vs). longitude point < longitude v"
      using ne by auto
    from ray_loop_left [OF this, of "latitude point" False] ne r
    show False by simp
  qed
qed

section \<open>The spatial index\<close>

lemma set_add_member [simp]: "set (set_add x xs) = insert x (set xs)"
  by (auto simp: set_add_def)

lemma set_delete_member: "set (set_delete x xs) = set xs - {x}"
  by (auto simp: set_delete_def)

lemma inBucket_upd:
  "inBucket (idx(c \<mapsto> ids)) cell k = (if cell = c then k \<in> set ids else inBucket idx cell k)"
  by (simp add: inBucket_def)

lemma calculateBoundingBox_shape:
  assumes "vertices g' = vertices g" and "region_type g' = region_type g"
      and "center g' = center g" and "radius g' = radius g"
  shows "calculateBoundingBox g' = calculateBoundingBox g"
  unfolding calculateBoundingBox_def assms by (rule refl)

lemma calculateBoundingBox_box [simp]:
  "calculateBoundingBox (g\<lparr>boundingBox := b\<rparr>) = calculateBoundingBox g"
  by (rule calculateBoundingBox_shape) simp_all

lemma calculateBoundingBox_setWasInside [simp]:
  "calculateBoundingBox (setWasInside b g) = calculateBoundingBox g"
  by (rule calculateBoundingBox_shape) (simp_all add: setWasInside_def)

lemma add_fold_mono:
  "inBucket idx cell k \<Longrightarrow>
   inBucket (fold (\<lambda>c i. i(c \<mapsto> set_add x (case i c of None \<Rightarrow> [] | Some ids \<Rightarrow> ids))) cells idx)
     cell k"
proof (induction cells arbitrary: idx)
  case Nil
  then show ?case by simp
next
  case (Cons c cells)
  have "inBucket (idx(c \<mapsto> set_add x (case idx c of None \<Rightarrow> [] | Some ids \<Rightarrow> ids))) cell k"
    using Cons.prems by (auto simp: inBucket_upd inBucket_def split: option.splits)
  from Cons.IH [OF this] show ?case by simp
qed

lemma add_fold_covers:
  "cell \<in> set cells \<Longrightarrow>
   inBucket (fold (\<lambda>c i. i(c \<mapsto> set_add x (case i c of None \<Rightarrow> [] | Some ids \<Rightarrow> ids))) cells idx)
     cell x"
proof (induction cells arbitrary: idx)
  case Nil
  then show ?case by simp
next
  case (Cons c cells)
  show ?case
  proof (cases "cell = c")
    case True
    have "inBucket (idx(c \<mapsto> set_add x (case idx c of None \<Rightarrow> [] | Some ids \<Rightarrow> ids))) cell x"
      using True by (simp add: inBucket_upd)
    from add_fold_mono [OF this, where x = x and cells = cells] show ?thesis
      unfolding fold_simps .
  next
    case False
    with Cons.prems have "cell \<in> set cells" by simp
    from Cons.IH [OF this] show ?thesis by simp
  qed
qed


lemma addToSpatialIndex_mono:
  "inBucket (spatialIndex s) cell k \<Longrightarrow> inBucket (spatialIndex (addToSpatialIndex s g)) cell k"
  by (simp add: addToSpatialIndex_def add_fold_mono split: option.split)

lemma addToSpatialIndex_covers:
  "boundingBox g = Some b \<Longrightarrow> cell \<in> set (getGridCells b) \<Longrightarrow>
   inBucket (spatialIndex (addToSpatialIndex s g)) cell (region_id g)"
  by (simp add: addToSpatialIndex_def add_fold_covers)


lemma remove_fold_keeps:
  "inBucket idx cell k \<Longrightarrow> k \<noteq> x \<Longrightarrow>
   inBucket (fold (\<lambda>c i. case i c of None \<Rightarrow> i
                          | Some ids \<Rightarrow> if set_delete x ids = [] then i(c := None)
                                        else i(c \<mapsto> set_delete x ids)) cells idx) cell k"
proof (induction cells arbitrary: idx)
  case Nil
  then show ?case by simp
next
  case (Cons c cells)
  define idx1 where "idx1 = (case idx c of None \<Rightarrow> idx
                          | Some ids \<Rightarrow> if set_delete x ids = [] then idx(c := None)
                                        else idx(c \<mapsto> set_delete x ids))"
  have "inBucket idx1 cell k"
  proof (cases "cell = c")
    case False
    with Cons.prems show ?thesis by (simp add: idx1_def inBucket_def split: option.splits)
  next
    case True
    with Cons.prems(1) obtain ids where ids: "idx c = Some ids" "k \<in> set ids"
      by (auto simp: inBucket_def split: option.splits)
    with Cons.prems(2) have "k \<in> set (set_delete x ids)" by (simp add: set_delete_member)
    then have "set_delete x ids \<noteq> []" "k \<in> set (set_delete x ids)" by auto
    with ids True show ?thesis by (simp add: idx1_def inBucket_def)
  qed
  from Cons.IH [OF this Cons.prems(2)] show ?case by (simp add: idx1_def)
qed

lemma removeFromSpatialIndex_keeps:
  "inBucket (spatialIndex s) cell k \<Longrightarrow> k \<noteq> region_id g \<Longrightarrow>
   inBucket (spatialIndex (removeFromSpatialIndex s g)) cell k"
  by (simp add: removeFromSpatialIndex_def remove_fold_keeps split: option.split)

lemma removeFromSpatialIndex_frame [simp]:
  "geofences (removeFromSpatialIndex s g) = geofences s"
  "hierarchies (removeFromSpatialIndex s g) = hierarchies s"
  "heap (removeFromSpatialIndex s g) = heap s"
  by (simp_all add: removeFromSpatialIndex_def split: option.split)

lemma addGeofence_geofences:
  "geofences (fst (addGeofence s region)) =
     (geofences s)(region_id region \<mapsto> region\<lparr>boundingBox := Some (calculateBoundingBox region)\<rparr>)"
  by (simp add: addGeofence_def Let_def split: option.split)

lemma getGridCells_member:
  "(a, b) \<in> set (getGridCells (Box mnLat mxLat mnLng mxLng)) \<longleftrightarrow>
     \<lfloor>mnLat / GRID_SIZE\<rfloor> \<le> a \<and> a \<le> \<lfloor>mxLat / GRID_SIZE\<rfloor> \<and>
     \<lfloor>mnLng / GRID_SIZE\<rfloor> \<le> b \<and> b \<le> \<lfloor>mxLng / GRID_SIZE\<rfloor>"
  by (force simp: getGridCells_def)

lemma point_cell_in_box:
  assumes "mnLat \<le> lat" "lat \<le> mxLat" "mnLng \<le> lng" "lng \<le> mxLng"
  shows "getGridCell lat lng \<in> set (getGridCells (Box mnLat mxLat mnLng mxLng))"
proof -
  have g: "0 < GRID_SIZE" by (simp add: GRID_SIZE_def)
  have "\<lfloor>mnLat / GRID_SIZE\<rfloor> \<le> \<lfloor>lat / GRID_SIZE\<rfloor>" "\<lfloor>lat / GRID_SIZE\<rfloor> \<le> \<lfloor>mxLat / GRID_SIZE\<rfloor>"
       "\<lfloor>mnLng / GRID_SIZE\<rfloor> \<le> \<lfloor>lng / GRID_SIZE\<rfloor>" "\<lfloor>lng / GRID_SIZE\<rfloor> \<le> \<lfloor>mxLng / GRID_SIZE\<rfloor>"
    using assms g by (simp_all add: floor_mono divide_right_mono)
  then show ?thesis by (simp add: getGridCell_def getGridCells_member)
qed

lemma polygon_point_cell:
  assumes "isPointInPolygon point vs"
  shows "getGridCell (latitude point) (longitude point) \<in> set (getGridCells (verticesBox vs))"
proof -
  from polygon_in_box [OF assms] show ?thesis
    by (simp add: verticesBox_def point_cell_in_box)
qed

lemma fold_set_add_keeps: "k \<in> set ids \<Longrightarrow> k \<in> set (fold set_add xs ids)"
  by (induction xs arbitrary: ids) simp_all

lemma neighbours_keep:
  "k \<in> set ids \<Longrightarrow>
   k \<in> set (fold (\<lambda>cell ids. case idx cell of None \<Rightarrow> ids
                               | Some cellIds \<Rightarrow> fold set_add cellIds ids) cells ids)"
proof (induction cells arbitrary: ids)
  case Nil
  then show ?case by simp
next
  case (Cons c cells)
  have "k \<in> set (case idx c of None \<Rightarrow> ids | Some cellIds \<Rightarrow> fold set_add cellIds ids)"
    using Cons.prems by (simp add: fold_set_add_keeps split: option.split)
  from Cons.IH [OF this] show ?case by simp
qed

lemma getCandidateGeofences_frame [simp]:
  "geofences (fst (getCandidateGeofences s p)) = geofences s"
  "hierarchies (fst (getCandidateGeofences s p)) = hierarchies s"
  "heap (fst (getCandidateGeofences s p)) = heap s"
  by (simp_all add: getCandidateGeofences_def Let_def split: option.split)

lemma getCandidateGeofences_mono:
  assumes "inBucket (spatialIndex s) cell k"
  shows "inBucket (spatialIndex (fst (getCandidateGeofences s p))) cell k"
proof (cases "spatialIndex s (getGridCell (latitude p) (longitude p))")
  case None
  with assms show ?thesis by (simp add: getCandidateGeofences_def Let_def)
next
  case (Some ids)
  show ?thesis
  proof (cases "cell = getGridCell (latitude p) (longitude p)")
    case False
    with assms Some show ?thesis
      by (simp add: getCandidateGeofences_def Let_def inBucket_def)
  next
    case True
    with assms Some have "k \<in> set ids" by (simp add: inBucket_def)
    from neighbours_keep [OF this] True Some show ?thesis
      by (simp add: getCandidateGeofences_def Let_def inBucket_def)
  qed
qed

lemma getCandidateGeofences_own_cell:
  assumes "inBucket (spatialIndex s) (getGridCell (latitude p) (longitude p)) k"
      and "geofences s k = Some g"
  shows "k \<in> set (snd (getCandidateGeofences s p))"
proof -
  from assms(1) obtain ids where ids:
      "spatialIndex s (getGridCell (latitude p) (longitude p)) = Some ids" "k \<in> set ids"
    by (auto simp: inBucket_def split: option.splits)
  from neighbours_keep [OF ids(2)] ids(1) assms(2) show ?thesis
    by (simp add: getCandidateGeofences_def Let_def)
qed

section \<open>The evaluation pass\<close>

lemma setWasInside_sel [simp]:
  "region_id (setWasInside b g) = region_id g"
  "boundingBox (setWasInside b g) = boundingBox g"
  "timeRules (setWasInside b g) = timeRules g"
  "conditionalRules (setWasInside b g) = conditionalRules g"
  "notifyOnEntry (setWasInside b g) = notifyOnEntry g"
  "notifyOnExit (setWasInside b g) = notifyOnExit g"
  "wasInside (setWasInside b g) = b"
  by (simp_all add: setWasInside_def wasInside_def)

lemma setWasInside_gate [simp]:
  "isTimeRuleActive tz (setWasInside b g) ts = isTimeRuleActive tz g ts"
  "areConditionalRulesActive (setWasInside b g) = areConditionalRulesActive g"
  "isPointInside p (setWasInside b g) = isPointInside p g"
  by (simp_all add: isTimeRuleActive_def areConditionalRulesActive_def isPointInside_def
      isPointInCircle_def setWasInside_def)

lemma setWasInside_twice [simp]: "setWasInside b (setWasInside b g) = setWasInside b g"
  by (simp add: setWasInside_def)

lemma checkOne_state:
  "fst (checkOne tz p ts key (s, res)) =
     (case geofences s key of
        None \<Rightarrow> s
      | Some g \<Rightarrow> if gateOpen tz g ts
                  then s\<lparr>geofences := (geofences s)(key \<mapsto> setWasInside (isPointInside p g) g)\<rparr>
                  else s)"
  by (simp add: checkOne_def gateOpen_def Let_def split: option.split)

lemma checkOne_entered:
  "entered (snd (checkOne tz p ts key (s, res))) =
     (case geofences s key of
        None \<Rightarrow> entered res
      | Some g \<Rightarrow> if gateOpen tz g ts \<and> isPointInside p g \<and> \<not> wasInside g \<and> notifyOnEntry g
                  then entered res @ [setWasInside (isPointInside p g) g]
                  else entered res)"
  by (simp add: checkOne_def gateOpen_def Let_def split: option.split)

lemma checkOne_exited:
  "exited (snd (checkOne tz p ts key (s, res))) =
     (case geofences s key of
        None \<Rightarrow> exited res
      | Some g \<Rightarrow> if gateOpen tz g ts \<and> \<not> isPointInside p g \<and> wasInside g \<and> notifyOnExit g
                  then exited res @ [setWasInside (isPointInside p g) g]
                  else exited res)"
  by (simp add: checkOne_def gateOpen_def Let_def split: option.split)

lemma checkOne_inside:
  "inside (snd (checkOne tz p ts key (s, res))) =
     (case geofences s key of
        None \<Rightarrow> inside res
      | Some g \<Rightarrow> if gateOpen tz g ts \<and> isPointInside p g
                  then inside res @ [setWasInside (isPointInside p g) g]
                  else inside res)"
  by (simp add: checkOne_def gateOpen_def Let_def split: option.split)

lemma checkOne_frame [simp]:
  "spatialIndex (fst (checkOne tz p ts key (s, res))) = spatialIndex s"
  "hierarchies (fst (checkOne tz p ts key (s, res))) = hierarchies s"
  "heap (fst (checkOne tz p ts key (s, res))) = heap s"
  by (simp_all add: checkOne_state split: option.split)

lemma checkOne_other_key:
  "k \<noteq> key \<Longrightarrow> geofences (fst (checkOne tz p ts key (s, res))) k = geofences s k"
  by (simp add: checkOne_state split: option.split)

lemma checkOne_indexInv:
  assumes "indexInv s"
  shows "indexInv (fst (checkOne tz p ts key (s, res)))"
proof (cases "geofences s key")
  case None
  with assms show ?thesis by (simp add: checkOne_state)
next
  case (Some g)
  show ?thesis
  proof (cases "gateOpen tz g ts")
    case False
    with Some assms show ?thesis by (simp add: checkOne_state)
  next
    case True
    from assms Some have g: "region_id g = key" "boundingBox g = Some (calculateBoundingBox g)"
        "list_all (\<lambda>cell. inBucket (spatialIndex s) cell key) (getGridCells (calculateBoundingBox g))"
      by (auto simp: indexInv_def)
    show ?thesis
      unfolding indexInv_def
    proof (intro allI impI)
      fix k h
      assume "geofences (fst (checkOne tz p ts key (s, res))) k = Some h"
      then have h: "(k = key \<and> h = setWasInside (isPointInside p g) g) \<or>
                    (k \<noteq> key \<and> geofences s k = Some h)"
        using Some True by (auto simp: checkOne_state split: if_splits)
      then show "region_id h = k \<and> boundingBox h = Some (calculateBoundingBox h) \<and>
                 list_all (\<lambda>cell. inBucket (spatialIndex (fst (checkOne tz p ts key (s, res)))) cell k)
                   (getGridCells (calculateBoundingBox h))"
        using g assms by (auto simp: indexInv_def)
    qed
  qed
qed

lemma fold_checkOne_pair:
  "fold (checkOne tz p ts) keys sr =
     (fst (fold (checkOne tz p ts) keys sr), snd (fold (checkOne tz p ts) keys sr))"
  by simp

lemma fold_checkOne_indexInv:
  "indexInv s \<Longrightarrow> indexInv (fst (fold (checkOne tz p ts) keys (s, res)))"
proof (induction keys arbitrary: s res)
  case Nil
  then show ?case by simp
next
  case (Cons key keys)
  obtain s1 res1 where e: "checkOne tz p ts key (s, res) = (s1, res1)" by force
  then have "s1 = fst (checkOne tz p ts key (s, res))" by simp
  with Cons.prems have "indexInv s1" by (simp add: checkOne_indexInv)
  from Cons.IH [OF this] show ?case by (simp add: e)
qed

lemma fold_checkOne_frame [simp]:
  "spatialIndex (fst (fold (checkOne tz p ts) keys (s, res))) = spatialIndex s"
proof (induction keys arbitrary: s res)
  case Nil
  show ?case by simp
next
  case (Cons key keys)
  obtain s1 res1 where e: "checkOne tz p ts key (s, res) = (s1, res1)" by force
  then have "s1 = fst (checkOne tz p ts key (s, res))" by simp
  then have "spatialIndex s1 = spatialIndex s" by simp
  with Cons.IH [of s1 res1] show ?case by (simp add: e)
qed

lemma indexInv_I:
  assumes "\<And>k g. geofences s k = Some g \<Longrightarrow> region_id g = k"
      and "\<And>k g. geofences s k = Some g \<Longrightarrow> boundingBox g = Some (calculateBoundingBox g)"
      and "\<And>k g cell. geofences s k = Some g \<Longrightarrow> cell \<in> set (getGridCells (calculateBoundingBox g))
             \<Longrightarrow> inBucket (spatialIndex s) cell k"
  shows "indexInv s"
  using assms unfolding indexInv_def list_all_iff by blast

lemma indexInv_D:
  assumes "indexInv s" and "geofences s k = Some g"
  shows "region_id g = k" and "boundingBox g = Some (calculateBoundingBox g)"
    and "cell \<in> set (getGridCells (calculateBoundingBox g)) \<Longrightarrow> inBucket (spatialIndex s) cell k"
  using assms unfolding indexInv_def list_all_iff by blast+

lemma indexInv_new: "indexInv (newManager hp)"
  by (simp add: indexInv_def newManager_def)

lemma indexInv_candidates:
  assumes "indexInv s"
  shows "indexInv (fst (getCandidateGeofences s p))"
proof (rule indexInv_I)
  fix k g assume g: "geofences (fst (getCandidateGeofences s p)) k = Some g"
  then have g': "geofences s k = Some g" by simp
  from indexInv_D(1,2) [OF assms g']
  show "region_id g = k" "boundingBox g = Some (calculateBoundingBox g)" .
  fix cell assume "cell \<in> set (getGridCells (calculateBoundingBox g))"
  from getCandidateGeofences_mono [OF indexInv_D(3) [OF assms g' this]]
  show "inBucket (spatialIndex (fst (getCandidateGeofences s p))) cell k" .
qed

lemma checkLocation_state:
  "fst (checkLocation tz s p ts) =
     fst (fold (checkOne tz p ts) (snd (getCandidateGeofences s p))
            (fst (getCandidateGeofences s p), \<lparr>entered = [], exited = [], inside = []\<rparr>))"
  by (simp add: checkLocation_def split: prod.split)

lemma checkLocation_result:
  "snd (checkLocation tz s p ts) =
     snd (fold (checkOne tz p ts) (snd (getCandidateGeofences s p))
            (fst (getCandidateGeofences s p), \<lparr>entered = [], exited = [], inside = []\<rparr>))"
  by (simp add: checkLocation_def split: prod.split)

lemma indexInv_check:
  "indexInv s \<Longrightarrow> indexInv (fst (checkLocation tz s p ts))"
  unfolding checkLocation_state by (intro fold_checkOne_indexInv indexInv_candidates)

lemma indexInv_add:
  assumes "indexInv s"
  shows "indexInv (fst (addGeofence s region))"
proof -
  define g where "g = region\<lparr>boundingBox := Some (calculateBoundingBox region)\<rparr>"
  define s1 where "s1 = s\<lparr>geofences := (geofences s)(region_id region \<mapsto> g)\<rparr>"
  have gs: "geofences (fst (addGeofence s region)) = (geofences s)(region_id region \<mapsto> g)"
    by (simp add: addGeofence_def Let_def g_def split: option.split)
  have idx: "spatialIndex (fst (addGeofence s region)) = spatialIndex (addToSpatialIndex s1 g)"
    by (simp add: addGeofence_def Let_def g_def s1_def split: option.split)
  have bb: "boundingBox g = Some (calculateBoundingBox g)" "region_id g = region_id region"
    by (simp_all add: g_def)
  show ?thesis
  proof (rule indexInv_I)
    fix k h assume "geofences (fst (addGeofence s region)) k = Some h"
    then have h: "(k = region_id region \<and> h = g) \<or> (k \<noteq> region_id region \<and> geofences s k = Some h)"
      unfolding gs by (auto split: if_splits)
    from h bb indexInv_D(1,2) [OF assms]
    show "region_id h = k" "boundingBox h = Some (calculateBoundingBox h)" by auto
    fix cell assume c: "cell \<in> set (getGridCells (calculateBoundingBox h))"
    from h show "inBucket (spatialIndex (fst (addGeofence s region))) cell k"
    proof
      assume "k = region_id region \<and> h = g"
      with c addToSpatialIndex_covers [OF bb(1), of cell s1] bb(2) show ?thesis
        unfolding idx by simp
    next
      assume o: "k \<noteq> region_id region \<and> geofences s k = Some h"
      with indexInv_D(3) [OF assms _ c] have "inBucket (spatialIndex s1) cell k"
        by (simp add: s1_def)
      then show ?thesis unfolding idx by (rule addToSpatialIndex_mono)
    qed
  qed
qed

lemma removeFromHierarchy_frame [simp]:
  "geofences (removeFromHierarchy s key) = geofences s"
  "spatialIndex (removeFromHierarchy s key) = spatialIndex s"
proof -
  have f: "geofences (fold (\<lambda>childId st. case hierarchies st childId of None \<Rightarrow> st
              | Some child \<Rightarrow> st\<lparr>heap := (heap st)(child := (heap st child)\<lparr>parentId := None\<rparr>)\<rparr>) cs st)
           = geofences st \<and>
           spatialIndex (fold (\<lambda>childId st. case hierarchies st childId of None \<Rightarrow> st
              | Some child \<Rightarrow> st\<lparr>heap := (heap st)(child := (heap st child)\<lparr>parentId := None\<rparr>)\<rparr>) cs st)
           = spatialIndex st" for cs st
    by (induction cs arbitrary: st) (simp_all split: option.split)
  show "geofences (removeFromHierarchy s key) = geofences s"
       "spatialIndex (removeFromHierarchy s key) = spatialIndex s"
    by (simp_all add: removeFromHierarchy_def Let_def f split: option.split)
qed

lemma indexInv_remove:
  assumes "indexInv s"
  shows "indexInv (fst (removeGeofence s key))"
proof (cases "geofences s key")
  case None
  with assms show ?thesis by (simp add: removeGeofence_def)
next
  case (Some g0)
  have gs: "geofences (fst (removeGeofence s key)) = (geofences s)(key := None)"
    using Some by (simp add: removeGeofence_def Let_def)
  have idx: "spatialIndex (fst (removeGeofence s key)) = spatialIndex (removeFromSpatialIndex s g0)"
    using Some by (simp add: removeGeofence_def Let_def removeFromSpatialIndex_def split: option.split)
  have id0: "region_id g0 = key" using indexInv_D(1) [OF assms Some] .
  show ?thesis
  proof (rule indexInv_I)
    fix k h assume "geofences (fst (removeGeofence s key)) k = Some h"
    then have h: "k \<noteq> key" "geofences s k = Some h"
      unfolding gs by (auto split: if_splits)
    from indexInv_D(1,2) [OF assms h(2)]
    show "region_id h = k" "boundingBox h = Some (calculateBoundingBox h)" .
    fix cell assume "cell \<in> set (getGridCells (calculateBoundingBox h))"
    from indexInv_D(3) [OF assms h(2) this] have "inBucket (spatialIndex s) cell k" .
    then show "inBucket (spatialIndex (fst (removeGeofence s key))) cell k"
      unfolding idx using h(1) id0 by (intro removeFromSpatialIndex_keeps) auto
  qed
qed

lemma reachable_indexInv: "reachable s \<Longrightarrow> indexInv s"
  by (induction rule: reachable.induct)
     (simp_all add: indexInv_new indexInv_add indexInv_remove indexInv_check)

lemma fold_checkOne_skips:
  assumes "geofences s k = Some g" and "\<not> gateOpen tz g ts"
  shows "geofences (fst (fold (checkOne tz p ts) keys (s, res))) k = Some g"
  using assms(1)
proof (induction keys arbitrary: s res)
  case Nil
  then show ?case by simp
next
  case (Cons key keys)
  obtain s1 res1 where e: "checkOne tz p ts key (s, res) = (s1, res1)" by force
  then have s1: "s1 = fst (checkOne tz p ts key (s, res))" by simp
  have "geofences s1 k = Some g"
  proof (cases "k = key")
    case True
    with Cons.prems assms(2) show ?thesis by (simp add: s1 checkOne_state)
  next
    case False
    with Cons.prems show ?thesis by (simp add: s1 checkOne_other_key)
  qed
  from Cons.IH [OF this] show ?case by (simp add: e)
qed

lemma fold_checkOne_done:
  assumes "geofences s k = Some (setWasInside (isPointInside p g) g)"
  shows "geofences (fst (fold (checkOne tz p ts) keys (s, res))) k =
           Some (setWasInside (isPointInside p g) g)"
  using assms
proof (induction keys arbitrary: s res)
  case Nil
  then show ?case by simp
next
  case (Cons key keys)
  obtain s1 res1 where e: "checkOne tz p ts key (s, res) = (s1, res1)" by force
  then have s1: "s1 = fst (checkOne tz p ts key (s, res))" by simp
  have "geofences s1 k = Some (setWasInside (isPointInside p g) g)"
  proof (cases "k = key")
    case True
    with Cons.prems show ?thesis by (simp add: s1 checkOne_state)
  next
    case False
    with Cons.prems show ?thesis by (simp add: s1 checkOne_other_key)
  qed
  from Cons.IH [OF this] show ?case by (simp add: e)
qed

lemma fold_checkOne_tracks:
  assumes "geofences s k = Some g" and "gateOpen tz g ts" and "k \<in> set keys"
  shows "geofences (fst (fold (checkOne tz p ts) keys (s, res))) k =
           Some (setWasInside (isPointInside p g) g)"
  using assms(1,3)
proof (induction keys arbitrary: s res)
  case Nil
  then show ?case by simp
next
  case (Cons key keys)
  obtain s1 res1 where e: "checkOne tz p ts key (s, res) = (s1, res1)" by force
  then have s1: "s1 = fst (checkOne tz p ts key (s, res))" by simp
  show ?case
  proof (cases "k = key")
    case True
    with Cons.prems(1) assms(2)
    have "geofences s1 k = Some (setWasInside (isPointInside p g) g)"
      by (simp add: s1 checkOne_state)
    from fold_checkOne_done [OF this] show ?thesis by (simp add: e)
  next
    case False
    with Cons.prems have "geofences s1 k = Some g" "k \<in> set keys"
      by (simp_all add: s1 checkOne_other_key)
    from Cons.IH [OF this] show ?thesis by (simp add: e)
  qed
qed

lemma fold_checkOne_skipped_results:
  assumes "indexInv s" and "geofences s k = Some g" and "\<not> gateOpen tz g ts"
      and "k \<notin> idsOf res"
  shows "k \<notin> idsOf (snd (fold (checkOne tz p ts) keys (s, res)))"
  using assms(1,2,4)
proof (induction keys arbitrary: s res)
  case Nil
  then show ?case by simp
next
  case (Cons key keys)
  obtain s1 res1 where e: "checkOne tz p ts key (s, res) = (s1, res1)" by force
  then have s1: "s1 = fst (checkOne tz p ts key (s, res))"
        and r1: "res1 = snd (checkOne tz p ts key (s, res))" by simp_all
  have i1: "indexInv s1" using Cons.prems(1) by (simp add: s1 checkOne_indexInv)
  have g1: "geofences s1 k = Some g"
  proof (cases "k = key")
    case True
    with Cons.prems(2) assms(3) show ?thesis by (simp add: s1 checkOne_state)
  next
    case False
    with Cons.prems(2) show ?thesis by (simp add: s1 checkOne_other_key)
  qed
  have n1: "k \<notin> idsOf res1"
  proof (cases "geofences s key")
    case None
    with Cons.prems(3) show ?thesis
      by (simp add: r1 idsOf_def checkOne_entered checkOne_exited checkOne_inside)
  next
    case (Some h)
    have idh: "region_id h = key" using indexInv_D(1) [OF Cons.prems(1) Some] .
    show ?thesis
    proof (cases "k = key")
      case True
      with Some Cons.prems(2) have "h = g" by simp
      with Some assms(3) Cons.prems(3) show ?thesis
        by (simp add: r1 idsOf_def checkOne_entered checkOne_exited checkOne_inside)
    next
      case False
      with Some idh Cons.prems(3) show ?thesis
        by (auto simp add: r1 idsOf_def checkOne_entered checkOne_exited checkOne_inside
            split: if_splits)
    qed
  qed
  from Cons.IH [OF i1 g1 n1] show ?case by (simp add: e)
qed

lemma fold_checkOne_no_enter:
  assumes "indexInv s" and "geofences s k = Some h" and "wasInside h \<or> \<not> isPointInside p h"
      and "k \<notin> region_id ` set (entered res)"
  shows "k \<notin> region_id ` set (entered (snd (fold (checkOne tz p ts) keys (s, res))))"
  using assms
proof (induction keys arbitrary: s res h)
  case Nil
  then show ?case by simp
next
  case (Cons key keys)
  obtain s1 res1 where e: "checkOne tz p ts key (s, res) = (s1, res1)" by force
  then have s1: "s1 = fst (checkOne tz p ts key (s, res))"
        and r1: "res1 = snd (checkOne tz p ts key (s, res))" by simp_all
  have i1: "indexInv s1" using Cons.prems(1) by (simp add: s1 checkOne_indexInv)
  have g1: "\<exists>h1. geofences s1 k = Some h1 \<and> (wasInside h1 \<or> \<not> isPointInside p h1)"
  proof (cases "k = key")
    case True
    with Cons.prems(2,3) show ?thesis by (auto simp add: s1 checkOne_state)
  next
    case False
    with Cons.prems(2,3) show ?thesis by (simp add: s1 checkOne_other_key)
  qed
  have n1: "k \<notin> region_id ` set (entered res1)"
  proof (cases "geofences s key")
    case None
    with Cons.prems(4) show ?thesis by (simp add: r1 checkOne_entered)
  next
    case (Some h0)
    have idh: "region_id h0 = key" using indexInv_D(1) [OF Cons.prems(1) Some] .
    show ?thesis
    proof (cases "k = key")
      case True
      with Some Cons.prems(2) have "h0 = h" by simp
      with Some Cons.prems(3,4) show ?thesis by (auto simp add: r1 checkOne_entered)
    next
      case False
      with Some idh Cons.prems(4) show ?thesis
        by (auto simp add: r1 checkOne_entered split: if_splits)
    qed
  qed
  from g1 obtain h1 where h1: "geofences s1 k = Some h1" "wasInside h1 \<or> \<not> isPointInside p h1"
    by blast
  from Cons.IH [OF i1 h1 n1] show ?case by (simp add: e)
qed

section \<open>Candidates of a point\<close>

lemma polygon_box: "region_type g = polygon \<Longrightarrow> calculateBoundingBox g = verticesBox (vertices g)"
  by (simp add: calculateBoundingBox_def split: option.split)

lemma polygon_candidate:
  assumes "indexInv s" and "geofences s k = Some g"
      and "region_type g = polygon" and "isPointInside p g"
  shows "k \<in> set (snd (getCandidateGeofences s p))"
proof -
  from assms(3,4) have "isPointInPolygon p (vertices g)" by (simp add: isPointInside_def)
  then have "getGridCell (latitude p) (longitude p) \<in> set (getGridCells (verticesBox (vertices g)))"
    by (rule polygon_point_cell)
  then have "getGridCell (latitude p) (longitude p) \<in> set (getGridCells (calculateBoundingBox g))"
    using assms(3) by (simp add: polygon_box)
  from indexInv_D(3) [OF assms(1,2) this]
  have "inBucket (spatialIndex s) (getGridCell (latitude p) (longitude p)) k" .
  from getCandidateGeofences_own_cell [OF this assms(2)] show ?thesis .
qed

lemma insidePoint_in_triangleA: "isPointInPolygon insidePoint triangleA"
  by (simp add: isPointInPolygon_def insidePoint_def triangleA_def crosses_def)









section \<open>The state of a region across evaluation passes\<close>

text \<open>
  The polygon manager does what claim C1 says: a candidate that passes both rule checks
  has its stored state set to the containment just computed, whatever its
  \<open>notifyOnEntry\<close> and \<open>notifyOnExit\<close> flags are.
\<close>

lemma checkLocation_tracks_occupancy:
  assumes "geofences s k = Some g" and "k \<in> set (snd (getCandidateGeofences s p))"
      and "isTimeRuleActive tz g ts" and "areConditionalRulesActive g"
  shows "geofences (fst (checkLocation tz s p ts)) k = Some (setWasInside (isPointInside p g) g)"
    and "wasInside (setWasInside (isPointInside p g) g) = isPointInside p g"
proof -
  have "geofences (fst (getCandidateGeofences s p)) k = Some g" using assms(1) by simp
  moreover have "gateOpen tz g ts" using assms(3,4) by (simp add: gateOpen_def)
  ultimately show "geofences (fst (checkLocation tz s p ts)) k =
                     Some (setWasInside (isPointInside p g) g)"
    unfolding checkLocation_state using assms(2) by (rule fold_checkOne_tracks)
  show "wasInside (setWasInside (isPointInside p g) g) = isPointInside p g" by simp
qed

lemma distance_same: "calculateDistance 0 0 0 0 = 0"
  by (simp add: calculateDistance_def toRadians_def atan2_def)

lemma distance_antipode: "calculateDistance 0 180 0 0 = 6371000 * pi"
proof -
  have "toRadians (0 - 180) / 2 = - (pi / 2)" "toRadians (0 - 0) / 2 = 0" "toRadians 0 = 0"
    by (simp_all add: toRadians_def)
  then show ?thesis
    by (simp add: calculateDistance_def Let_def atan2_def)
qed

text \<open>
  Claim C1 in the offline manager: \<open>evaluateLocation\<close> writes \<open>wasInside\<close> only in the two
  branches that make an event. A geofence that notifies on exit only is entered by the
  fix at (0, 0): no event is made and the stored state stays outside, although the
  distance is within the radius. The next fix, at (0, 180), is outside: no exit event is
  made.
\<close>

theorem offline_occupancy_not_tracked:
  "calculateDistance 0 0 0 0 \<le> geofence_radius exitOnly \<and>
   evaluateLocation (\<lambda>k. ''id'') exitOnlyState (fixAt 0 0 1) =
     (exitOnlyState\<lparr>offline_geofences := [(''g'', exitOnly\<lparr>lastEvaluated := 1\<rparr>)]\<rparr>, []) \<and>
   \<not> offline_wasInside (exitOnly\<lparr>lastEvaluated := 1\<rparr>) \<and>
   \<not> calculateDistance 0 180 0 0 \<le> geofence_radius exitOnly \<and>
   snd (evaluateLocation (\<lambda>k. ''id'')
          (fst (evaluateLocation (\<lambda>k. ''id'') exitOnlyState (fixAt 0 0 1))) (fixAt 0 180 2)) = []"
proof -
  have far: "\<not> 6371000 * pi \<le> 100" using pi_ge_two by simp
  have one: "evaluateLocation (\<lambda>k. ''id'') exitOnlyState (fixAt 0 0 1) =
     (exitOnlyState\<lparr>offline_geofences := [(''g'', exitOnly\<lparr>lastEvaluated := 1\<rparr>)]\<rparr>, [])"
    by (simp add: evaluateLocation_def exitOnlyState_def exitOnly_def fixAt_def distance_same
        offline_wasInside_def Let_def)
  have two: "snd (evaluateLocation (\<lambda>k. ''id'')
      (exitOnlyState\<lparr>offline_geofences := [(''g'', exitOnly\<lparr>lastEvaluated := 1\<rparr>)]\<rparr>) (fixAt 0 180 2)) = []"
    using far
    by (simp add: evaluateLocation_def exitOnlyState_def exitOnly_def fixAt_def distance_antipode
        offline_wasInside_def Let_def)
  show ?thesis
    using far one two by (simp add: distance_same distance_antipode exitOnly_def offline_wasInside_def)
qed

text \<open>
  Claim C2. A region of a reachable state that fails the time rules or the conditional
  rules is skipped by the pass: it is stored unchanged afterwards, with its inside or
  outside state as before, and it is in none of the three result lists. If its stored
  state is inside, then the next pass, at any point and time, reports no entry for it.
\<close>

theorem gate_skip_preserves_state:
  assumes "reachable s" and "geofences s k = Some g"
      and "\<not> (isTimeRuleActive tz g ts \<and> areConditionalRulesActive g)"
  shows "geofences (fst (checkLocation tz s p ts)) k = Some g \<and>
         k \<notin> idsOf (snd (checkLocation tz s p ts)) \<and>
         (wasInside g \<longrightarrow>
            k \<notin> region_id ` set (entered (snd (checkLocation tz' (fst (checkLocation tz s p ts)) p' ts'))))"
proof -
  have inv: "indexInv s" using assms(1) by (rule reachable_indexInv)
  have closed: "\<not> gateOpen tz g ts" using assms(3) by (simp add: gateOpen_def)
  let ?c = "fst (getCandidateGeofences s p)"
  have ic: "indexInv ?c" using inv by (rule indexInv_candidates)
  have gc: "geofences ?c k = Some g" using assms(2) by simp
  have A: "geofences (fst (checkLocation tz s p ts)) k = Some g"
    unfolding checkLocation_state using gc closed by (rule fold_checkOne_skips)
  have "k \<notin> idsOf \<lparr>entered = [], exited = [], inside = []\<rparr>" by (simp add: idsOf_def)
  with ic gc closed have B: "k \<notin> idsOf (snd (checkLocation tz s p ts))"
    unfolding checkLocation_result by (rule fold_checkOne_skipped_results)
  have C: "k \<notin> region_id ` set (entered (snd (checkLocation tz' (fst (checkLocation tz s p ts)) p' ts')))"
    if w: "wasInside g"
  proof -
    let ?s2 = "fst (checkLocation tz s p ts)"
    let ?c2 = "fst (getCandidateGeofences ?s2 p')"
    have "indexInv ?s2" using inv by (rule indexInv_check)
    then have i2: "indexInv ?c2" by (rule indexInv_candidates)
    have g2: "geofences ?c2 k = Some g" using A by simp
    have w2: "wasInside g \<or> \<not> isPointInside p' g" using w by simp
    have e2: "k \<notin> region_id ` set (entered \<lparr>entered = [], exited = [], inside = []\<rparr>)" by simp
    from i2 g2 w2 e2 show ?thesis
      unfolding checkLocation_result by (rule fold_checkOne_no_enter)
  qed
  from A B C show ?thesis by blast
qed

lemma timedRegion_gate:
  "isTimeRuleActive (\<lambda>t. 0) (withBox timedRegion) 43200000"
  "\<not> isTimeRuleActive (\<lambda>t. 0) (withBox timedRegion) 61260000"
  "isTimeRuleActive (\<lambda>t. 0) (withBox timedRegion) 118800000"
  "areConditionalRulesActive (withBox timedRegion)"
  by (simp_all add: isTimeRuleActive_def areConditionalRulesActive_def withBox_def timedRegion_def
      plainRegion_def officeRule_def getDay_def getHours_def getMinutes_def localMinutes_def
      isTimeInRange_def timeToMinutes_def)

lemma timedInside_region:
  "geofences timedInside ''t'' = Some (setWasInside True (withBox timedRegion))"
proof -
  have r: "reachable timedState" unfolding timedState_def by (intro reachable.add reachable.new)
  have g: "geofences timedState ''t'' = Some (withBox timedRegion)"
    by (simp add: timedState_def addGeofence_geofences withBox_def timedRegion_def)
  have t: "region_type (withBox timedRegion) = polygon"
    by (simp add: withBox_def timedRegion_def)
  have i: "isPointInside insidePoint (withBox timedRegion)"
    by (simp add: isPointInside_def withBox_def timedRegion_def insidePoint_in_triangleA)
  have c: "''t'' \<in> set (snd (getCandidateGeofences timedState insidePoint))"
    using reachable_indexInv [OF r] g t i by (rule polygon_candidate)
  from checkLocation_tracks_occupancy(1) [OF g c timedRegion_gate(1,4)] i
  show ?thesis by (simp add: timedInside_def)
qed

text \<open>
  The timed region is entered at 12:00; the pass at 17:01 skips it; at 09:00 of the next
  day, the device still inside, no entry is reported.
\<close>

theorem gate_skip_preserves_state_witness:
  "reachable timedInside \<and>
   geofences timedInside ''t'' = Some (setWasInside True (withBox timedRegion)) \<and>
   \<not> isTimeRuleActive (\<lambda>t. 0) (setWasInside True (withBox timedRegion)) 61260000 \<and>
   wasInside (setWasInside True (withBox timedRegion)) \<and>
   geofences (fst (checkLocation (\<lambda>t. 0) timedInside insidePoint 61260000)) ''t'' =
     Some (setWasInside True (withBox timedRegion)) \<and>
   ''t'' \<notin> idsOf (snd (checkLocation (\<lambda>t. 0) timedInside insidePoint 61260000)) \<and>
   isTimeRuleActive (\<lambda>t. 0) (setWasInside True (withBox timedRegion)) 118800000 \<and>
   ''t'' \<notin> region_id ` set (entered (snd (checkLocation (\<lambda>t. 0)
             (fst (checkLocation (\<lambda>t. 0) timedInside insidePoint 61260000))
             insidePoint 118800000)))"
proof -
  have r: "reachable timedInside"
    unfolding timedInside_def timedState_def
    by (intro reachable.check reachable.add reachable.new)
  have n: "\<not> (isTimeRuleActive (\<lambda>t. 0) (setWasInside True (withBox timedRegion)) 61260000 \<and>
              areConditionalRulesActive (setWasInside True (withBox timedRegion)))"
    by (simp add: timedRegion_gate)
  from gate_skip_preserves_state [OF r timedInside_region n,
         of insidePoint "\<lambda>t. 0" insidePoint 118800000]
       r timedInside_region
  show ?thesis by (simp add: timedRegion_gate)
qed

end
